theory Spec2Isabelle
  imports Complex_Main "HOL-Library.Multiset"
begin

section \<open>Smart garbage collection: the agents of \<^verbatim>\<open>garbageCollector.py\<close>\<close>

text \<open>
  The simulation has three kinds of agents on a grid: buildings that generate trash, trucks
  that collect it, and one disposal site. This theory embeds the agent classes and the
  model class of \<^verbatim>\<open>garbageCollector.py\<close> as functions over explicit state.

  Conventions of the embedding.
  \<^item> Amounts of trash are rationals (\<open>rat\<close>), counters are integers. The operations of
    the main development add amounts exactly and read the literal \<open>0.8\<close> as \<open>4/5\<close>: they
    are the program without the rounding of Python's floats. The section on double
    precision repeats the operations that compute with amounts as the program computes
    them, every sum and product rounded to the nearest double; the statements on sums of
    amounts are made there.
  \<^item> An agent object is identified by its index in the list of its kind; a truck's
    \<open>target\<close> is the index of a building or \<open>None\<close>.
  \<^item> The grid of the \<^verbatim>\<open>mesa\<close> library is not a separate structure: the content of a cell
    is read off the positions stored in the agents, which the library keeps in step with
    its cell table.
  \<^item> The random number generator is a list of natural numbers, the raw draws still to
    come; a draw takes the head (and \<open>0\<close> once the list is used up). The program draws
    from the model's generator and, inside the grid library, from the global one; one list
    stands for the draws of both in the order they are taken. Every finite run of the
    program is the run for some such list.
  \<^item> The functions of the \<^verbatim>\<open>mesa\<close> and \<^verbatim>\<open>random\<close> libraries that the program calls
    (the grid, the scheduler, \<^verbatim>\<open>shuffle\<close>, \<^verbatim>\<open>choice\<close>, \<^verbatim>\<open>randint\<close>, \<^verbatim>\<open>uniform\<close>) are
    defined here from their documented behaviour.
  \<^item> An exception is a value of type \<open>error\<close>; a function that can raise returns
    \<open>error + 'a\<close>.
\<close>

subsection \<open>Errors and the random source\<close>

datatype error =
    NoEmptyCells  \<comment> \<open>\<^verbatim>\<open>Exception("ERROR: No empty cells")\<close> of \<^verbatim>\<open>move_to_empty\<close>\<close>
  | ValueError    \<comment> \<open>\<^verbatim>\<open>min\<close> of an empty sequence\<close>
  | IndexError    \<comment> \<open>an index outside a list: \<^verbatim>\<open>random.choice\<close> of an empty sequence, a cell
                      outside the grid's table\<close>

type_synonym rng = "nat list"

definition randbelow :: "nat \<Rightarrow> rng \<Rightarrow> nat \<times> rng" where
  "randbelow n rs = (case rs of [] \<Rightarrow> (0, []) | r # rs' \<Rightarrow> (r mod n, rs'))"

text \<open>\<^verbatim>\<open>random()\<close> is a multiple of \<open>2\<^sup>-\<^sup>5\<^sup>3\<close> in \<open>[0, 1)\<close>.\<close>

definition py_random :: "rng \<Rightarrow> rat \<times> rng" where
  "py_random rs = (case randbelow (2 ^ 53) rs of (k, rs') \<Rightarrow> (of_nat k / 2 ^ 53, rs'))"

definition uniform :: "rat \<Rightarrow> rat \<Rightarrow> rng \<Rightarrow> rat \<times> rng" where
  "uniform a b rs = (case py_random rs of (u, rs') \<Rightarrow> (a + (b - a) * u, rs'))"

definition randint :: "int \<Rightarrow> int \<Rightarrow> rng \<Rightarrow> int \<times> rng" where
  "randint a b rs = (case randbelow (nat (b - a + 1)) rs of (k, rs') \<Rightarrow> (a + int k, rs'))"

definition choice :: "'a list \<Rightarrow> rng \<Rightarrow> error + ('a \<times> rng)" where
  "choice xs rs =
     (if xs = [] then Inl IndexError
      else (case randbelow (length xs) rs of (k, rs') \<Rightarrow> Inr (xs ! k, rs')))"

text \<open>
  \<^verbatim>\<open>random.shuffle\<close>: for \<open>i\<close> from \<open>len(x) - 1\<close> down to \<open>1\<close>, swap \<open>x[i]\<close> with \<open>x[j]\<close>
  for a random \<open>j \<le> i\<close>.
\<close>

fun shuffle_loop :: "nat \<Rightarrow> 'a list \<Rightarrow> rng \<Rightarrow> 'a list \<times> rng" where
  "shuffle_loop 0 xs rs = (xs, rs)"
| "shuffle_loop (Suc i) xs rs =
     (case randbelow (Suc i + 1) rs of
        (j, rs') \<Rightarrow> shuffle_loop i (xs[Suc i := xs ! j, j := xs ! Suc i]) rs')"

definition shuffle :: "'a list \<Rightarrow> rng \<Rightarrow> 'a list \<times> rng" where
  "shuffle xs rs = shuffle_loop (length xs - 1) xs rs"

text \<open>
  \<^verbatim>\<open>min(xs, key=f)\<close>: the first element with the least key; \<^verbatim>\<open>ValueError\<close> on an empty
  sequence.
\<close>

fun min_key_loop :: "('a \<Rightarrow> int) \<Rightarrow> 'a \<Rightarrow> 'a list \<Rightarrow> 'a" where
  "min_key_loop f best [] = best"
| "min_key_loop f best (x # xs) = min_key_loop f (if f x < f best then x else best) xs"

definition py_min :: "('a \<Rightarrow> int) \<Rightarrow> 'a list \<Rightarrow> error + 'a" where
  "py_min f xs = (case xs of [] \<Rightarrow> Inl ValueError | x # xs' \<Rightarrow> Inr (min_key_loop f x xs'))"

subsection \<open>The agents\<close>

type_synonym pos = "int \<times> int"

record BuildingAgent =
  b_pos :: pos
  trash_level :: rat
  b_capacity :: rat
  trash_generation_rate :: rat
  pickup_requested :: bool
  total_trash_generated :: rat
  pickup_wait_time :: int

datatype truck_state = Patrolling | Collecting | Returning

record TruckAgent =
  t_pos :: pos
  t_capacity :: rat
  current_load :: rat
  speed :: int
  state :: truck_state
  target :: "nat option"
  total_collected :: rat
  trips_made :: int
  distance_traveled :: int

record DisposalSiteAgent =
  d_pos :: pos
  total_received :: rat

record GarbageCollectionModel =
  width :: int
  height :: int
  n_buildings :: int
  n_trucks :: int
  buildings :: "BuildingAgent list"
  trucks :: "TruckAgent list"
  disposal_site :: "DisposalSiteAgent option"
  rng_state :: rng

subsection \<open>\<^verbatim>\<open>BuildingAgent\<close>\<close>

definition BuildingAgent_init :: "pos \<Rightarrow> rat \<Rightarrow> rat \<Rightarrow> BuildingAgent" where
  "BuildingAgent_init p rate cap =
     \<lparr>b_pos = p, trash_level = 0, b_capacity = cap, trash_generation_rate = rate,
      pickup_requested = False, total_trash_generated = 0, pickup_wait_time = 0\<rparr>"

definition generate :: "BuildingAgent \<Rightarrow> BuildingAgent" where
  "generate b =
     (if trash_level b < b_capacity b
      then b\<lparr>trash_level := trash_level b + trash_generation_rate b,
             total_trash_generated := total_trash_generated b + trash_generation_rate b\<rparr>
      else b)"

definition raise_request :: "BuildingAgent \<Rightarrow> BuildingAgent" where
  "raise_request b =
     (if trash_level b \<ge> b_capacity b * (4 / 5) \<and> \<not> pickup_requested b
      then b\<lparr>pickup_requested := True, pickup_wait_time := 0\<rparr>
      else b)"

definition count_wait :: "BuildingAgent \<Rightarrow> BuildingAgent" where
  "count_wait b =
     (if pickup_requested b then b\<lparr>pickup_wait_time := pickup_wait_time b + 1\<rparr> else b)"

text \<open>\<^verbatim>\<open>BuildingAgent.step\<close>: its three \<^verbatim>\<open>if\<close> statements in sequence.\<close>

definition building_step :: "BuildingAgent \<Rightarrow> BuildingAgent" where
  "building_step b = count_wait (raise_request (generate b))"

text \<open>\<^verbatim>\<open>BuildingAgent.collect_trash\<close>: the value returned and the building afterwards.\<close>

definition collect_trash :: "BuildingAgent \<Rightarrow> rat \<times> BuildingAgent" where
  "collect_trash b =
     (let collected = trash_level b
      in (collected, b\<lparr>trash_level := 0, pickup_requested := False, pickup_wait_time := 0\<rparr>))"

subsection \<open>\<^verbatim>\<open>DisposalSiteAgent\<close>\<close>

definition receive_trash :: "rat \<Rightarrow> DisposalSiteAgent \<Rightarrow> DisposalSiteAgent" where
  "receive_trash amount d = d\<lparr>total_received := total_received d + amount\<rparr>"

subsection \<open>The grid, read off the agents\<close>

definition out_of_bounds :: "GarbageCollectionModel \<Rightarrow> pos \<Rightarrow> bool" where
  "out_of_bounds m p = (fst p < 0 \<or> fst p \<ge> width m \<or> snd p < 0 \<or> snd p \<ge> height m)"

definition truck_in_cell :: "GarbageCollectionModel \<Rightarrow> pos \<Rightarrow> bool" where
  "truck_in_cell m p = list_ex (\<lambda>t. t_pos t = p) (trucks m)"

definition is_cell_empty :: "GarbageCollectionModel \<Rightarrow> pos \<Rightarrow> bool" where
  "is_cell_empty m p =
     (\<not> list_ex (\<lambda>b. b_pos b = p) (buildings m) \<and> \<not> list_ex (\<lambda>t. t_pos t = p) (trucks m)
      \<and> (case disposal_site m of None \<Rightarrow> True | Some d \<Rightarrow> d_pos d \<noteq> p))"

text \<open>
  \<^verbatim>\<open>grid.is_cell_empty(pos)\<close> looks the cell up in the grid's table, a list of \<open>width\<close>
  columns of \<open>height\<close> cells each. As for every Python list, an index outside
  \<open>-len .. len - 1\<close> raises \<^verbatim>\<open>IndexError\<close> and a negative index counts from the end.
\<close>

definition grid_is_cell_empty :: "GarbageCollectionModel \<Rightarrow> pos \<Rightarrow> error + bool" where
  "grid_is_cell_empty m p =
     (let columns = max 0 (width m);
          rows = max 0 (height m)
      in if fst p < - columns \<or> columns \<le> fst p \<or> snd p < - rows \<or> rows \<le> snd p
         then Inl IndexError
         else Inr (is_cell_empty m (fst p mod columns, snd p mod rows)))"

text \<open>\<^verbatim>\<open>sorted(grid.empties)\<close>: the empty cells in lexicographic order.\<close>

definition all_cells :: "GarbageCollectionModel \<Rightarrow> pos list" where
  "all_cells m =
     map (\<lambda>(x, y). (int x, int y)) (List.product [0 ..< nat (width m)] [0 ..< nat (height m)])"

definition empties :: "GarbageCollectionModel \<Rightarrow> pos list" where
  "empties m = filter (is_cell_empty m) (all_cells m)"

text \<open>
  \<^verbatim>\<open>grid.get_neighborhood(pos, moore=True, include_center=False)\<close> on a torus: the
  offsets run over \<open>-r .. r - k\<close> in each direction, where the radius \<open>r\<close> is \<open>1\<close> cut to
  half the extent and \<open>k\<close> drops the last offset when it would wrap onto the first; the
  centre is removed.
\<close>

definition offsets :: "int \<Rightarrow> int list" where
  "offsets extent =
     (let max_radius = extent div 2;
          radius = min 1 max_radius;
          k = (if radius = max_radius \<and> (extent + 1) mod 2 = 1 then 1 else 0)
      in [- radius .. radius - k])"

definition get_neighborhood :: "GarbageCollectionModel \<Rightarrow> pos \<Rightarrow> pos list" where
  "get_neighborhood m p =
     filter (\<lambda>q. q \<noteq> p)
       (concat (map (\<lambda>dx. map (\<lambda>dy. ((fst p + dx) mod width m, (snd p + dy) mod height m))
                               (offsets (height m)))
                    (offsets (width m))))"

subsection \<open>\<^verbatim>\<open>TruckAgent\<close>: movement\<close>

definition TruckAgent_init :: "pos \<Rightarrow> rat \<Rightarrow> int \<Rightarrow> TruckAgent" where
  "TruckAgent_init p cap spd =
     \<lparr>t_pos = p, t_capacity = cap, current_load = 0, speed = spd, state = Patrolling,
      target = None, total_collected = 0, trips_made = 0, distance_traveled = 0\<rparr>"

text \<open>
  \<^verbatim>\<open>grid.move_agent(self, new_pos)\<close> followed by \<^verbatim>\<open>self.distance_traveled += 1\<close>, for the
  truck with index \<open>i\<close>.
\<close>

definition move_agent :: "nat \<Rightarrow> pos \<Rightarrow> GarbageCollectionModel \<Rightarrow> GarbageCollectionModel" where
  "move_agent i p m =
     m\<lparr>trucks := (trucks m)[i := (trucks m ! i)\<lparr>t_pos := p,
          distance_traveled := distance_traveled (trucks m ! i) + 1\<rparr>]\<rparr>"

text \<open>\<^verbatim>\<open>_try_move\<close>: the returned flag and the model afterwards.\<close>

definition try_move ::
  "nat \<Rightarrow> pos \<Rightarrow> pos \<Rightarrow> GarbageCollectionModel \<Rightarrow> bool \<times> GarbageCollectionModel" where
  "try_move i new_pos target_pos m =
     (if \<not> out_of_bounds m new_pos then
        (let is_occupied_by_truck = truck_in_cell m new_pos
         in if \<not> is_occupied_by_truck \<or> new_pos = target_pos
            then (True, move_agent i new_pos m)
            else (False, m))
      else (False, m))"

definition move_randomly :: "nat \<Rightarrow> GarbageCollectionModel \<Rightarrow> error + GarbageCollectionModel" where
  "move_randomly i m =
     (let possible_steps = get_neighborhood m (t_pos (trucks m ! i));
          valid_steps = filter (\<lambda>p. \<not> out_of_bounds m p \<and> \<not> truck_in_cell m p) possible_steps
      in if valid_steps \<noteq> [] then
           (case choice valid_steps (rng_state m) of
              Inl e \<Rightarrow> Inl e
            | Inr (new_position, rs) \<Rightarrow> Inr (move_agent i new_position (m\<lparr>rng_state := rs\<rparr>)))
         else Inr m)"

definition move_towards ::
  "nat \<Rightarrow> pos \<Rightarrow> GarbageCollectionModel \<Rightarrow> error + GarbageCollectionModel" where
  "move_towards i target_pos m =
     (let x = fst (t_pos (trucks m ! i));
          y = snd (t_pos (trucks m ! i));
          dx = fst target_pos - x;
          dy = snd target_pos - y;
          along_x = (x + sgn dx, y);
          along_y = (x, y + sgn dy);
          first = (if \<bar>dx\<bar> > \<bar>dy\<bar> then along_x else along_y);
          second = (if \<bar>dx\<bar> > \<bar>dy\<bar> then along_y else along_x)
      in case try_move i first target_pos m of
           (True, m') \<Rightarrow> Inr m'
         | (False, _) \<Rightarrow>
             (case try_move i second target_pos m of
                (True, m') \<Rightarrow> Inr m'
              | (False, _) \<Rightarrow> move_randomly i m))"

definition distance_to :: "pos \<Rightarrow> pos \<Rightarrow> int" where
  "distance_to p q = \<bar>fst p - fst q\<bar> + \<bar>snd p - snd q\<bar>"

subsection \<open>\<^verbatim>\<open>TruckAgent\<close>: the three states\<close>

definition is_targeted :: "GarbageCollectionModel \<Rightarrow> nat \<Rightarrow> bool" where
  "is_targeted m j = list_ex (\<lambda>truck. target truck = Some j) (trucks m)"

text \<open>
  The scan of \<^verbatim>\<open>_patrol\<close> runs over \<^verbatim>\<open>schedule.agents\<close>, which lists the agents in the
  order they were added: the buildings come first, in the order of their indices.
\<close>

definition buildings_needing_pickup :: "GarbageCollectionModel \<Rightarrow> nat list" where
  "buildings_needing_pickup m =
     filter (\<lambda>j. pickup_requested (buildings m ! j) \<and> \<not> is_targeted m j)
            [0 ..< length (buildings m)]"

definition patrol :: "nat \<Rightarrow> GarbageCollectionModel \<Rightarrow> error + GarbageCollectionModel" where
  "patrol i m =
     (let needing = buildings_needing_pickup m
      in if needing \<noteq> [] then
           (case py_min (\<lambda>j. distance_to (t_pos (trucks m ! i)) (b_pos (buildings m ! j))) needing of
              Inl e \<Rightarrow> Inl e
            | Inr closest_building \<Rightarrow>
                Inr (m\<lparr>trucks := (trucks m)[i := (trucks m ! i)\<lparr>target := Some closest_building,
                                                               state := Collecting\<rparr>]\<rparr>))
         else move_randomly i m)"

definition abandon :: "nat \<Rightarrow> GarbageCollectionModel \<Rightarrow> GarbageCollectionModel" where
  "abandon i m = m\<lparr>trucks := (trucks m)[i := (trucks m ! i)\<lparr>state := Patrolling, target := None\<rparr>]\<rparr>"

definition harvest :: "nat \<Rightarrow> nat \<Rightarrow> GarbageCollectionModel \<Rightarrow> GarbageCollectionModel" where
  "harvest i j m =
     (case collect_trash (buildings m ! j) of
        (collected, b') \<Rightarrow>
          (let t = trucks m ! i;
               t1 = t\<lparr>current_load := current_load t + collected,
                      total_collected := total_collected t + collected,
                      target := None\<rparr>;
               t2 = t1\<lparr>state := (if current_load t1 \<ge> t_capacity t1 then Returning
                                   else Patrolling)\<rparr>
           in m\<lparr>buildings := (buildings m)[j := b'], trucks := (trucks m)[i := t2]\<rparr>))"

text \<open>\<^verbatim>\<open>_collect\<close>; \<open>harvest\<close> is its last branch, where the truck stands on its target.\<close>

definition collect :: "nat \<Rightarrow> GarbageCollectionModel \<Rightarrow> error + GarbageCollectionModel" where
  "collect i m =
     (case target (trucks m ! i) of
        None \<Rightarrow> Inr (abandon i m)
      | Some j \<Rightarrow>
          if \<not> pickup_requested (buildings m ! j) then Inr (abandon i m)
          else if t_pos (trucks m ! i) \<noteq> b_pos (buildings m ! j)
               then move_towards i (b_pos (buildings m ! j)) m
               else Inr (harvest i j m))"

definition unload :: "nat \<Rightarrow> DisposalSiteAgent \<Rightarrow> GarbageCollectionModel \<Rightarrow> GarbageCollectionModel" where
  "unload i d m =
     (let t = trucks m ! i
      in m\<lparr>disposal_site := Some (receive_trash (current_load t) d),
           trucks := (trucks m)[i := t\<lparr>current_load := 0, trips_made := trips_made t + 1,
                                        state := Patrolling\<rparr>]\<rparr>)"

definition return_to_disposal ::
  "nat \<Rightarrow> GarbageCollectionModel \<Rightarrow> error + GarbageCollectionModel" where
  "return_to_disposal i m =
     (case disposal_site m of
        None \<Rightarrow> Inr m
      | Some d \<Rightarrow>
          if t_pos (trucks m ! i) \<noteq> d_pos d then move_towards i (d_pos d) m
          else Inr (unload i d m))"

text \<open>One pass of the loop body of \<^verbatim>\<open>TruckAgent.step\<close>.\<close>

definition truck_substep :: "nat \<Rightarrow> GarbageCollectionModel \<Rightarrow> error + GarbageCollectionModel" where
  "truck_substep i m =
     (case state (trucks m ! i) of
        Patrolling \<Rightarrow> patrol i m
      | Collecting \<Rightarrow> collect i m
      | Returning \<Rightarrow> return_to_disposal i m)"

fun truck_loop :: "nat \<Rightarrow> nat \<Rightarrow> GarbageCollectionModel \<Rightarrow> error + GarbageCollectionModel" where
  "truck_loop 0 i m = Inr m"
| "truck_loop (Suc k) i m =
     (case truck_substep i m of Inl e \<Rightarrow> Inl e | Inr m' \<Rightarrow> truck_loop k i m')"

text \<open>\<^verbatim>\<open>TruckAgent.step\<close>: \<^verbatim>\<open>range(self.speed)\<close> is read once, and is empty for a speed below 1.\<close>

definition truck_step :: "nat \<Rightarrow> GarbageCollectionModel \<Rightarrow> error + GarbageCollectionModel" where
  "truck_step i m = truck_loop (nat (speed (trucks m ! i))) i m"

subsection \<open>The scheduler and \<^verbatim>\<open>GarbageCollectionModel.step\<close>\<close>

datatype agent = Building nat | Truck nat | Disposal

text \<open>The agents in the order \<^verbatim>\<open>__init__\<close> adds them to the schedule.\<close>

definition schedule_agents :: "GarbageCollectionModel \<Rightarrow> agent list" where
  "schedule_agents m =
     map Building [0 ..< length (buildings m)] @ map Truck [0 ..< length (trucks m)]
     @ (case disposal_site m of None \<Rightarrow> [] | Some _ \<Rightarrow> [Disposal])"

definition agent_step :: "agent \<Rightarrow> GarbageCollectionModel \<Rightarrow> error + GarbageCollectionModel" where
  "agent_step a m =
     (case a of
        Building j \<Rightarrow> Inr (m\<lparr>buildings := (buildings m)[j := building_step (buildings m ! j)]\<rparr>)
      | Truck i \<Rightarrow> truck_step i m
      | Disposal \<Rightarrow> Inr m)"

fun step_agents :: "agent list \<Rightarrow> GarbageCollectionModel \<Rightarrow> error + GarbageCollectionModel" where
  "step_agents [] m = Inr m"
| "step_agents (a # as) m =
     (case agent_step a m of Inl e \<Rightarrow> Inl e | Inr m' \<Rightarrow> step_agents as m')"

text \<open>
  \<^verbatim>\<open>RandomActivation.step\<close> shuffles the list of agents with the model's random source and
  steps each agent in the shuffled order.
\<close>

definition activation_order :: "GarbageCollectionModel \<Rightarrow> agent list" where
  "activation_order m = fst (shuffle (schedule_agents m) (rng_state m))"

text \<open>
  \<^verbatim>\<open>GarbageCollectionModel.step\<close>. The data collector that runs afterwards only reads the
  agents; it is not part of the state here.
\<close>

definition model_step :: "GarbageCollectionModel \<Rightarrow> error + GarbageCollectionModel" where
  "model_step m =
     (case shuffle (schedule_agents m) (rng_state m) of
        (order, rs) \<Rightarrow> step_agents order (m\<lparr>rng_state := rs\<rparr>))"

text \<open>The driver calls \<^verbatim>\<open>step\<close> once per tick; \<open>run k\<close> is \<open>k\<close> ticks.\<close>

fun run :: "nat \<Rightarrow> GarbageCollectionModel \<Rightarrow> error + GarbageCollectionModel" where
  "run 0 m = Inr m"
| "run (Suc k) m = (case model_step m of Inl e \<Rightarrow> Inl e | Inr m' \<Rightarrow> run k m')"

subsection \<open>Construction: \<^verbatim>\<open>GarbageCollectionModel.__init__\<close>\<close>

text \<open>
  \<^verbatim>\<open>grid.find_empty()\<close>: a random empty cell, or \<^verbatim>\<open>None\<close> when the grid is full.
\<close>

definition find_empty :: "GarbageCollectionModel \<Rightarrow> error + (pos option \<times> rng)" where
  "find_empty m =
     (if empties m \<noteq> [] then
        (case choice (empties m) (rng_state m) of
           Inl e \<Rightarrow> Inl e
         | Inr (p, rs) \<Rightarrow> Inr (Some p, rs))
      else Inr (None, rng_state m))"

text \<open>The body of the loop of \<^verbatim>\<open>_create_buildings\<close>.\<close>

definition create_building :: "GarbageCollectionModel \<Rightarrow> error + GarbageCollectionModel" where
  "create_building m =
     (case find_empty m of
        Inl e \<Rightarrow> Inl e
      | Inr (None, rs) \<Rightarrow> Inr (m\<lparr>rng_state := rs\<rparr>)
      | Inr (Some p, rs) \<Rightarrow>
          (case uniform (1 / 2) 2 rs of
             (trash_rate, rs1) \<Rightarrow>
               (case randint 8 15 rs1 of
                  (cap, rs2) \<Rightarrow>
                    Inr (m\<lparr>buildings := buildings m @ [BuildingAgent_init p trash_rate (of_int cap)],
                           rng_state := rs2\<rparr>))))"

text \<open>The body of the loop of \<^verbatim>\<open>_create_trucks\<close>.\<close>

definition create_truck :: "GarbageCollectionModel \<Rightarrow> error + GarbageCollectionModel" where
  "create_truck m =
     (case find_empty m of
        Inl e \<Rightarrow> Inl e
      | Inr (None, rs) \<Rightarrow> Inr (m\<lparr>rng_state := rs\<rparr>)
      | Inr (Some p, rs) \<Rightarrow>
          (case randint 40 60 rs of
             (cap, rs1) \<Rightarrow>
               (case randint 1 2 rs1 of
                  (spd, rs2) \<Rightarrow>
                    Inr (m\<lparr>trucks := trucks m @ [TruckAgent_init p (of_int cap) spd],
                           rng_state := rs2\<rparr>))))"

fun repeat ::
  "nat \<Rightarrow> (GarbageCollectionModel \<Rightarrow> error + GarbageCollectionModel) \<Rightarrow>
   GarbageCollectionModel \<Rightarrow> error + GarbageCollectionModel" where
  "repeat 0 body m = Inr m"
| "repeat (Suc k) body m = (case body m of Inl e \<Rightarrow> Inl e | Inr m' \<Rightarrow> repeat k body m')"

definition create_buildings :: "GarbageCollectionModel \<Rightarrow> error + GarbageCollectionModel" where
  "create_buildings m = repeat (nat (n_buildings m)) create_building m"

definition create_trucks :: "GarbageCollectionModel \<Rightarrow> error + GarbageCollectionModel" where
  "create_trucks m = repeat (nat (n_trucks m)) create_truck m"

text \<open>
  \<^verbatim>\<open>grid.get_cell_list_contents([pos])\<close> during construction: the buildings and trucks placed
  on the cell, in the order of their placement.
\<close>

definition cell_contents :: "GarbageCollectionModel \<Rightarrow> pos \<Rightarrow> agent list" where
  "cell_contents m p =
     map Building (filter (\<lambda>j. b_pos (buildings m ! j) = p) [0 ..< length (buildings m)])
     @ map Truck (filter (\<lambda>i. t_pos (trucks m ! i) = p) [0 ..< length (trucks m)])"

definition place :: "agent \<Rightarrow> pos \<Rightarrow> GarbageCollectionModel \<Rightarrow> GarbageCollectionModel" where
  "place a p m =
     (case a of
        Building j \<Rightarrow> m\<lparr>buildings := (buildings m)[j := (buildings m ! j)\<lparr>b_pos := p\<rparr>]\<rparr>
      | Truck i \<Rightarrow> m\<lparr>trucks := (trucks m)[i := (trucks m ! i)\<lparr>t_pos := p\<rparr>]\<rparr>
      | Disposal \<Rightarrow> m)"

text \<open>
  \<^verbatim>\<open>grid.move_to_empty(agent)\<close>: raises when no cell is empty, and moves the agent to a
  random empty cell otherwise.
\<close>

definition move_to_empty :: "agent \<Rightarrow> GarbageCollectionModel \<Rightarrow> error + GarbageCollectionModel" where
  "move_to_empty a m =
     (if empties m = [] then Inl NoEmptyCells
      else (case choice (empties m) (rng_state m) of
              Inl e \<Rightarrow> Inl e
            | Inr (p, rs) \<Rightarrow> Inr (place a p (m\<lparr>rng_state := rs\<rparr>))))"

fun move_all_to_empty ::
  "agent list \<Rightarrow> GarbageCollectionModel \<Rightarrow> error + GarbageCollectionModel" where
  "move_all_to_empty [] m = Inr m"
| "move_all_to_empty (a # as) m =
     (case move_to_empty a m of Inl e \<Rightarrow> Inl e | Inr m' \<Rightarrow> move_all_to_empty as m')"

text \<open>
  \<^verbatim>\<open>_create_disposal_site\<close>. The site counts as an occupant of the grid only once it is
  placed, so the field is set at the end.
\<close>

definition create_disposal_site :: "GarbageCollectionModel \<Rightarrow> error + GarbageCollectionModel" where
  "create_disposal_site m =
     (let p = (0, 0)
      in case grid_is_cell_empty m p of
           Inl e \<Rightarrow> Inl e
         | Inr vacant \<Rightarrow>
             (case (if \<not> vacant then move_all_to_empty (cell_contents m p) m else Inr m) of
                Inl e \<Rightarrow> Inl e
              | Inr m' \<Rightarrow> Inr (m'\<lparr>disposal_site := Some \<lparr>d_pos = p, total_received = 0\<rparr>\<rparr>)))"

text \<open>
  \<^verbatim>\<open>GarbageCollectionModel(width, height, n_buildings, n_trucks)\<close>, with the random
  source as a further argument. \<^verbatim>\<open>MultiGrid(width, height, True)\<close> builds the table of
  cells for any extents; for an extent that is not positive the table has no cell, the
  two loops place nothing, and the lookup of the corner cell for the disposal site raises.
\<close>

definition GarbageCollectionModel_init ::
  "int \<Rightarrow> int \<Rightarrow> int \<Rightarrow> int \<Rightarrow> rng \<Rightarrow> error + GarbageCollectionModel" where
  "GarbageCollectionModel_init w h nb nt rs =
     (case create_buildings
             \<lparr>width = w, height = h, n_buildings = nb, n_trucks = nt, buildings = [],
              trucks = [], disposal_site = None, rng_state = rs\<rparr> of
        Inl e \<Rightarrow> Inl e
      | Inr m1 \<Rightarrow>
          (case create_trucks m1 of
             Inl e \<Rightarrow> Inl e
           | Inr m2 \<Rightarrow> create_disposal_site m2))"

subsection \<open>Executions\<close>

text \<open>The models an execution can be in between two ticks.\<close>

inductive reachable :: "GarbageCollectionModel \<Rightarrow> bool" where
  constructed: "GarbageCollectionModel_init w h nb nt rs = Inr m \<Longrightarrow> reachable m"
| ticked: "reachable m \<Longrightarrow> model_step m = Inr m' \<Longrightarrow> reachable m'"

section \<open>Amounts in double precision\<close>

text \<open>
  Python's \<^verbatim>\<open>float\<close> is the IEEE binary64 format: a sum or product is the exact result
  rounded to the nearest number with 53 significant bits, a tie going to the even
  neighbour. The doubles are rationals here, and rounding is a function on the rationals.
\<close>







subsection \<open>The operations on amounts, as the program computes them\<close>




















section \<open>Operations, invariants and executions\<close>

subsection \<open>What one pass of a truck's loop can do\<close>

text \<open>
  \<open>truck_op i m m'\<close>: truck \<open>i\<close> takes the model from \<open>m\<close> to \<open>m'\<close> in one of the ways
  the three state handlers allow: it stays, it moves to a cell, it claims a building that
  requests pickup and that no truck targets, it gives up its target, it harvests its
  target, or it unloads at the disposal site.
\<close>

inductive truck_op :: "nat \<Rightarrow> GarbageCollectionModel \<Rightarrow> GarbageCollectionModel \<Rightarrow> bool"
  for i :: nat and m :: GarbageCollectionModel where
  stays: "truck_op i m m"
| moves: "truck_op i m (move_agent i p (m\<lparr>rng_state := rs\<rparr>))"
| claims:
    "state (trucks m ! i) = Patrolling \<Longrightarrow> j \<in> set (buildings_needing_pickup m) \<Longrightarrow>
     truck_op i m (m\<lparr>trucks := (trucks m)[i := (trucks m ! i)\<lparr>target := Some j,
                                                            state := Collecting\<rparr>]\<rparr>)"
| abandons: "state (trucks m ! i) = Collecting \<Longrightarrow> truck_op i m (abandon i m)"
| harvests:
    "state (trucks m ! i) = Collecting \<Longrightarrow> target (trucks m ! i) = Some j \<Longrightarrow>
     pickup_requested (buildings m ! j) \<Longrightarrow> t_pos (trucks m ! i) = b_pos (buildings m ! j) \<Longrightarrow>
     truck_op i m (harvest i j m)"
| unloads:
    "state (trucks m ! i) = Returning \<Longrightarrow> disposal_site m = Some d \<Longrightarrow>
     t_pos (trucks m ! i) = d_pos d \<Longrightarrow> truck_op i m (unload i d m)"

text \<open>A property of models that every pass of a truck's loop keeps.\<close>

definition truck_stable :: "(GarbageCollectionModel \<Rightarrow> bool) \<Rightarrow> bool" where
  "truck_stable P \<longleftrightarrow>
     (\<forall>i m m'. P m \<longrightarrow> i < length (trucks m) \<longrightarrow> truck_op i m m' \<longrightarrow> P m')"

text \<open>
  A property of models that every operation of a tick keeps: the step of a building, a
  pass of a truck's loop, and a draw from the random source.
\<close>

definition stable :: "(GarbageCollectionModel \<Rightarrow> bool) \<Rightarrow> bool" where
  "stable P \<longleftrightarrow>
     (\<forall>m j. P m \<longrightarrow> j < length (buildings m) \<longrightarrow>
        P (m\<lparr>buildings := (buildings m)[j := building_step (buildings m ! j)]\<rparr>))
     \<and> truck_stable P
     \<and> (\<forall>m rs. P m \<longrightarrow> P (m\<lparr>rng_state := rs\<rparr>))"

subsection \<open>Invariants\<close>

text \<open>
  The bounds that construction gives a building (capacity from \<^verbatim>\<open>randint(8, 15)\<close>, rate from
  \<^verbatim>\<open>uniform(0.5, 2.0)\<close>), the range of its fill, and the relation between the request
  flag and the threshold.
\<close>

definition building_ok :: "BuildingAgent \<Rightarrow> bool" where
  "building_ok b \<longleftrightarrow>
     8 \<le> b_capacity b \<and> b_capacity b \<le> 15
     \<and> 1 / 2 \<le> trash_generation_rate b \<and> trash_generation_rate b < 2
     \<and> 0 \<le> trash_level b \<and> trash_level b < b_capacity b + trash_generation_rate b
     \<and> (pickup_requested b \<or> trash_level b < b_capacity b * (4 / 5))"

text \<open>
  The bounds that construction gives a truck (capacity from \<^verbatim>\<open>randint(40, 60)\<close>, speed from
  \<^verbatim>\<open>randint(1, 2)\<close>) and the range of its load.
\<close>

definition truck_ok :: "TruckAgent \<Rightarrow> bool" where
  "truck_ok t \<longleftrightarrow>
     40 \<le> t_capacity t \<and> t_capacity t \<le> 60 \<and> (speed t = 1 \<or> speed t = 2)
     \<and> 0 \<le> current_load t \<and> current_load t < t_capacity t + 17
     \<and> (state t = Returning \<or> current_load t < t_capacity t)"

definition target_below :: "nat \<Rightarrow> TruckAgent \<Rightarrow> bool" where
  "target_below n t = (case target t of None \<Rightarrow> True | Some j \<Rightarrow> j < n)"

text \<open>No building is the target of two trucks.\<close>

definition exclusive :: "TruckAgent list \<Rightarrow> bool" where
  "exclusive ts \<longleftrightarrow>
     (\<forall>i < length ts. \<forall>k < length ts. \<forall>j.
        target (ts ! i) = Some j \<and> target (ts ! k) = Some j \<longrightarrow> i = k)"

definition received :: "GarbageCollectionModel \<Rightarrow> rat" where
  "received m = (case disposal_site m of None \<Rightarrow> 0 | Some d \<Rightarrow> total_received d)"

text \<open>All trash generated is in the sink, on a truck or in a building.\<close>

definition conserved :: "GarbageCollectionModel \<Rightarrow> bool" where
  "conserved m \<longleftrightarrow>
     sum_list (map total_trash_generated (buildings m))
       = received m + sum_list (map current_load (trucks m))
         + sum_list (map trash_level (buildings m))"

definition invariant :: "GarbageCollectionModel \<Rightarrow> bool" where
  "invariant m \<longleftrightarrow>
     list_all building_ok (buildings m) \<and> list_all truck_ok (trucks m)
     \<and> list_all (target_below (length (buildings m))) (trucks m)
     \<and> exclusive (trucks m) \<and> conserved m"

subsection \<open>During construction\<close>

text \<open>The cells taken by the buildings and trucks placed so far.\<close>

definition occupied :: "GarbageCollectionModel \<Rightarrow> pos list" where
  "occupied m = map b_pos (buildings m) @ map t_pos (trucks m)"

text \<open>
  A model between the creation of the grid and the placement of the disposal site: every
  agent sits alone on a cell of the grid.
\<close>

definition under_construction :: "int \<Rightarrow> int \<Rightarrow> GarbageCollectionModel \<Rightarrow> bool" where
  "under_construction w h m \<longleftrightarrow>
     width m = w \<and> height m = h \<and> 0 < w \<and> 0 < h \<and> disposal_site m = None
     \<and> distinct (occupied m) \<and> set (occupied m) \<subseteq> set (all_cells m) \<and> invariant m"

subsection \<open>Example runs\<close>

text \<open>
  Concrete models for the closed theorems below. Each seed lists the raw draws of the
  random source in the order the program takes them.
\<close>

definition hamlet_seed :: rng where
  "hamlet_seed = [3, 2 ^ 52, 0]"

definition town_seed :: rng where
  "town_seed = [1, 3 * 2 ^ 51, 7, 1, 3 * 2 ^ 51, 7, 1, 3 * 2 ^ 51, 7, 1, 0, 0]"

definition lane_seed :: rng where
  "lane_seed =
     [1, 7 * 2 ^ 50, 0, 1, 0, 1, 1, 0, 0,
      0, 2, 1, 0, 0, 0, 0, 2, 1, 0, 0, 0, 0, 2, 1, 0, 0, 0, 0, 2, 1, 1, 0, 0, 0, 2, 1, 0]"

definition lane_apart_seed :: rng where
  "lane_apart_seed =
     [1, 7 * 2 ^ 50, 0, 1, 0, 1, 1, 0, 0,
      0, 2, 1, 0, 0, 0, 0, 2, 1, 0, 0, 0, 0, 2, 1, 0, 0, 0, 0, 2, 1, 0, 0, 0]"

text \<open>A grid of 2 by 2 with one building and no truck, as constructed from \<open>hamlet_seed\<close>.\<close>

definition hamlet :: GarbageCollectionModel where
  "hamlet =
     \<lparr>width = 2, height = 2, n_buildings = 1, n_trucks = 0,
      buildings =
        [\<lparr>b_pos = (1, 1), trash_level = 0, b_capacity = 8,
           trash_generation_rate = 5 / 4, pickup_requested = False,
           total_trash_generated = 0, pickup_wait_time = 0\<rparr>],
      trucks =
        [],
      disposal_site = Some \<lparr>d_pos = (0, 0), total_received = 0\<rparr>,
      rng_state = []\<rparr>"

text \<open>The hamlet after 7 ticks.\<close>

definition hamlet7 :: GarbageCollectionModel where
  "hamlet7 =
     \<lparr>width = 2, height = 2, n_buildings = 1, n_trucks = 0,
      buildings =
        [\<lparr>b_pos = (1, 1), trash_level = 35 / 4, b_capacity = 8,
           trash_generation_rate = 5 / 4, pickup_requested = True,
           total_trash_generated = 35 / 4, pickup_wait_time = 2\<rparr>],
      trucks =
        [],
      disposal_site = Some \<lparr>d_pos = (0, 0), total_received = 0\<rparr>,
      rng_state = []\<rparr>"

text \<open>A grid of 3 by 2 with three buildings and one truck, as constructed from \<open>town_seed\<close>.\<close>

definition town :: GarbageCollectionModel where
  "town =
     \<lparr>width = 3, height = 2, n_buildings = 3, n_trucks = 1,
      buildings =
        [\<lparr>b_pos = (0, 1), trash_level = 0, b_capacity = 15,
           trash_generation_rate = 13 / 8, pickup_requested = False,
           total_trash_generated = 0, pickup_wait_time = 0\<rparr>,
         \<lparr>b_pos = (1, 0), trash_level = 0, b_capacity = 15,
           trash_generation_rate = 13 / 8, pickup_requested = False,
           total_trash_generated = 0, pickup_wait_time = 0\<rparr>,
         \<lparr>b_pos = (1, 1), trash_level = 0, b_capacity = 15,
           trash_generation_rate = 13 / 8, pickup_requested = False,
           total_trash_generated = 0, pickup_wait_time = 0\<rparr>],
      trucks =
        [\<lparr>t_pos = (2, 0), t_capacity = 40, current_load = 0, speed = 1,
           state = Patrolling, target = None, total_collected = 0,
           trips_made = 0, distance_traveled = 0\<rparr>],
      disposal_site = Some \<lparr>d_pos = (0, 0), total_received = 0\<rparr>,
      rng_state = []\<rparr>"

text \<open>The town after 16 ticks: the truck has harvested all three buildings.\<close>

definition town16 :: GarbageCollectionModel where
  "town16 =
     \<lparr>width = 3, height = 2, n_buildings = 3, n_trucks = 1,
      buildings =
        [\<lparr>b_pos = (0, 1), trash_level = 65 / 8, b_capacity = 15,
           trash_generation_rate = 13 / 8, pickup_requested = False,
           total_trash_generated = 195 / 8, pickup_wait_time = 0\<rparr>,
         \<lparr>b_pos = (1, 0), trash_level = 0, b_capacity = 15,
           trash_generation_rate = 13 / 8, pickup_requested = False,
           total_trash_generated = 65 / 4, pickup_wait_time = 0\<rparr>,
         \<lparr>b_pos = (1, 1), trash_level = 91 / 8, b_capacity = 15,
           trash_generation_rate = 13 / 8, pickup_requested = False,
           total_trash_generated = 26, pickup_wait_time = 0\<rparr>],
      trucks =
        [\<lparr>t_pos = (1, 0), t_capacity = 40, current_load = 377 / 8, speed = 1,
           state = Returning, target = None, total_collected = 377 / 8,
           trips_made = 0, distance_traveled = 10\<rparr>],
      disposal_site = Some \<lparr>d_pos = (0, 0), total_received = 0\<rparr>,
      rng_state = []\<rparr>"

text \<open>The town after 22 ticks: the truck has unloaded once and harvested again.\<close>

definition town22 :: GarbageCollectionModel where
  "town22 =
     \<lparr>width = 3, height = 2, n_buildings = 3, n_trucks = 1,
      buildings =
        [\<lparr>b_pos = (0, 1), trash_level = 65 / 4, b_capacity = 15,
           trash_generation_rate = 13 / 8, pickup_requested = True,
           total_trash_generated = 65 / 2, pickup_wait_time = 4\<rparr>,
         \<lparr>b_pos = (1, 0), trash_level = 39 / 4, b_capacity = 15,
           trash_generation_rate = 13 / 8, pickup_requested = False,
           total_trash_generated = 26, pickup_wait_time = 0\<rparr>,
         \<lparr>b_pos = (1, 1), trash_level = 0, b_capacity = 15,
           trash_generation_rate = 13 / 8, pickup_requested = False,
           total_trash_generated = 247 / 8, pickup_wait_time = 0\<rparr>],
      trucks =
        [\<lparr>t_pos = (1, 1), t_capacity = 40, current_load = 65 / 4, speed = 1,
           state = Patrolling, target = None, total_collected = 507 / 8,
           trips_made = 1, distance_traveled = 13\<rparr>],
      disposal_site = Some \<lparr>d_pos = (0, 0), total_received = 377 / 8\<rparr>,
      rng_state = []\<rparr>"

text \<open>A grid of 2 by 2 with one building and two trucks, as constructed from \<open>lane_seed\<close>.\<close>

definition lane :: GarbageCollectionModel where
  "lane =
     \<lparr>width = 2, height = 2, n_buildings = 1, n_trucks = 2,
      buildings =
        [\<lparr>b_pos = (0, 1), trash_level = 0, b_capacity = 8,
           trash_generation_rate = 29 / 16, pickup_requested = False,
           total_trash_generated = 0, pickup_wait_time = 0\<rparr>],
      trucks =
        [\<lparr>t_pos = (1, 0), t_capacity = 40, current_load = 0, speed = 2,
           state = Patrolling, target = None, total_collected = 0,
           trips_made = 0, distance_traveled = 0\<rparr>,
         \<lparr>t_pos = (1, 1), t_capacity = 40, current_load = 0, speed = 1,
           state = Patrolling, target = None, total_collected = 0,
           trips_made = 0, distance_traveled = 0\<rparr>],
      disposal_site = Some \<lparr>d_pos = (0, 0), total_received = 0\<rparr>,
      rng_state = [0, 2, 1, 0, 0, 0, 0, 2, 1, 0, 0, 0, 0, 2, 1, 0, 0, 0, 0, 2, 1, 1, 0, 0, 0, 2, 1, 0]\<rparr>"

text \<open>The lane after 3 ticks.\<close>

definition lane3 :: GarbageCollectionModel where
  "lane3 =
     \<lparr>width = 2, height = 2, n_buildings = 1, n_trucks = 2,
      buildings =
        [\<lparr>b_pos = (0, 1), trash_level = 87 / 16, b_capacity = 8,
           trash_generation_rate = 29 / 16, pickup_requested = False,
           total_trash_generated = 87 / 16, pickup_wait_time = 0\<rparr>],
      trucks =
        [\<lparr>t_pos = (1, 0), t_capacity = 40, current_load = 0, speed = 2,
           state = Patrolling, target = None, total_collected = 0,
           trips_made = 0, distance_traveled = 6\<rparr>,
         \<lparr>t_pos = (0, 0), t_capacity = 40, current_load = 0, speed = 1,
           state = Patrolling, target = None, total_collected = 0,
           trips_made = 0, distance_traveled = 3\<rparr>],
      disposal_site = Some \<lparr>d_pos = (0, 0), total_received = 0\<rparr>,
      rng_state = [0, 2, 1, 1, 0, 0, 0, 2, 1, 0]\<rparr>"

text \<open>The lane after 4 ticks: the building requests pickup and the first truck stands on it.\<close>

definition lane4 :: GarbageCollectionModel where
  "lane4 =
     \<lparr>width = 2, height = 2, n_buildings = 1, n_trucks = 2,
      buildings =
        [\<lparr>b_pos = (0, 1), trash_level = 29 / 4, b_capacity = 8,
           trash_generation_rate = 29 / 16, pickup_requested = True,
           total_trash_generated = 29 / 4, pickup_wait_time = 1\<rparr>],
      trucks =
        [\<lparr>t_pos = (0, 1), t_capacity = 40, current_load = 0, speed = 2,
           state = Patrolling, target = None, total_collected = 0,
           trips_made = 0, distance_traveled = 8\<rparr>,
         \<lparr>t_pos = (1, 1), t_capacity = 40, current_load = 0, speed = 1,
           state = Patrolling, target = None, total_collected = 0,
           trips_made = 0, distance_traveled = 4\<rparr>],
      disposal_site = Some \<lparr>d_pos = (0, 0), total_received = 0\<rparr>,
      rng_state = [0, 2, 1, 0]\<rparr>"

text \<open>The lane after 4 ticks when constructed from \<open>lane_apart_seed\<close>: the building requests
  pickup and no truck stands on it.\<close>

definition lane4_apart :: GarbageCollectionModel where
  "lane4_apart =
     \<lparr>width = 2, height = 2, n_buildings = 1, n_trucks = 2,
      buildings =
        [\<lparr>b_pos = (0, 1), trash_level = 29 / 4, b_capacity = 8,
           trash_generation_rate = 29 / 16, pickup_requested = True,
           total_trash_generated = 29 / 4, pickup_wait_time = 1\<rparr>],
      trucks =
        [\<lparr>t_pos = (1, 0), t_capacity = 40, current_load = 0, speed = 2,
           state = Patrolling, target = None, total_collected = 0,
           trips_made = 0, distance_traveled = 8\<rparr>,
         \<lparr>t_pos = (1, 1), t_capacity = 40, current_load = 0, speed = 1,
           state = Patrolling, target = None, total_collected = 0,
           trips_made = 0, distance_traveled = 4\<rparr>],
      disposal_site = Some \<lparr>d_pos = (0, 0), total_received = 0\<rparr>,
      rng_state = []\<rparr>"

text \<open>A grid of 5 by 5 constructed with no building and one truck, from no draws.\<close>

definition village :: GarbageCollectionModel where
  "village =
     \<lparr>width = 5, height = 5, n_buildings = 0, n_trucks = 1,
      buildings = [],
      trucks =
        [\<lparr>t_pos = (0, 1), t_capacity = 40, current_load = 0, speed = 1,
           state = Patrolling, target = None, total_collected = 0,
           trips_made = 0, distance_traveled = 0\<rparr>],
      disposal_site = Some \<lparr>d_pos = (0, 0), total_received = 0\<rparr>,
      rng_state = []\<rparr>"

subsection \<open>The tick as the specification words it\<close>

text \<open>
  The specification's \<^verbatim>\<open>advance()\<close>: it steps every source once, then every collector, in
  the order of registration. This definition follows the specification, not the source;
  the source's tick is \<open>model_step\<close>.
\<close>

definition spec_advance :: "GarbageCollectionModel \<Rightarrow> error + GarbageCollectionModel" where
  "spec_advance m =
     step_agents (map Building [0 ..< length (buildings m)] @ map Truck [0 ..< length (trucks m)]) m"

text \<open>The targets of the trucks after an operation that succeeded.\<close>

definition targets_after :: "error + GarbageCollectionModel \<Rightarrow> nat option list" where
  "targets_after r = (case r of Inl e \<Rightarrow> [] | Inr m \<Rightarrow> map target (trucks m))"

subsection \<open>Two trucks and one request\<close>

text \<open>
  The scenario of the specification: one building, which requests pickup, and two
  patrolling trucks without a target.
\<close>

definition two_trucks_one_request :: "GarbageCollectionModel \<Rightarrow> bool" where
  "two_trucks_one_request m \<longleftrightarrow>
     length (buildings m) = 1 \<and> length (trucks m) = 2 \<and> pickup_requested (buildings m ! 0)
     \<and> list_all (\<lambda>t. state t = Patrolling \<and> target t = None) (trucks m)"

text \<open>The truck that a given order of activation reaches first.\<close>

fun first_truck :: "agent list \<Rightarrow> nat option" where
  "first_truck [] = None"
| "first_truck (Truck k # as) = Some k"
| "first_truck (a # as) = first_truck as"

text \<open>
  Truck \<open>k\<close> cannot claim the building and harvest it in the same tick: it has one pass per
  tick or does not stand on the building's cell.
\<close>

definition deferred :: "nat \<Rightarrow> GarbageCollectionModel \<Rightarrow> bool" where
  "deferred k m \<longleftrightarrow>
     speed (trucks m ! k) = 1 \<or> t_pos (trucks m ! k) \<noteq> b_pos (buildings m ! 0)"

text \<open>The truck that the coming tick activates first cannot claim and harvest in that tick.\<close>

definition harvest_deferred :: "GarbageCollectionModel \<Rightarrow> bool" where
  "harvest_deferred m \<longleftrightarrow>
     (case first_truck (activation_order m) of None \<Rightarrow> True | Some k \<Rightarrow> deferred k m)"

text \<open>The part of the scenario that a tick keeps until the building is harvested.\<close>

definition one_pending :: "GarbageCollectionModel \<Rightarrow> bool" where
  "one_pending m \<longleftrightarrow>
     length (buildings m) = 1 \<and> length (trucks m) = 2 \<and> pickup_requested (buildings m ! 0)
     \<and> list_all (\<lambda>t. speed t = 1 \<or> speed t = 2) (trucks m)"

text \<open>The scenario before any truck has been activated, and after truck \<open>k\<close> has claimed.\<close>

definition unclaimed :: "GarbageCollectionModel \<Rightarrow> bool" where
  "unclaimed m \<longleftrightarrow> one_pending m \<and> two_trucks_one_request m"

definition claimed_by :: "nat \<Rightarrow> GarbageCollectionModel \<Rightarrow> bool" where
  "claimed_by k m \<longleftrightarrow>
     one_pending m \<and> k < 2
     \<and> target (trucks m ! k) = Some 0 \<and> state (trucks m ! k) = Collecting
     \<and> target (trucks m ! (1 - k)) = None \<and> state (trucks m ! (1 - k)) = Patrolling"

text \<open>Truck \<open>i\<close> has at most moved: nothing but its position, its distance and the random source
  differs.\<close>

definition displaced :: "nat \<Rightarrow> GarbageCollectionModel \<Rightarrow> GarbageCollectionModel \<Rightarrow> bool" where
  "displaced i m m' \<longleftrightarrow> m' = m \<or> (\<exists>p rs. m' = move_agent i p (m\<lparr>rng_state := rs\<rparr>))"

text \<open>The lane in its fifth tick, after the activation of the first truck.\<close>

definition lane4_harvested :: GarbageCollectionModel where
  "lane4_harvested =
     \<lparr>width = 2, height = 2, n_buildings = 1, n_trucks = 2,
      buildings =
        [\<lparr>b_pos = (0, 1), trash_level = 0, b_capacity = 8,
           trash_generation_rate = 29 / 16, pickup_requested = False,
           total_trash_generated = 29 / 4, pickup_wait_time = 0\<rparr>],
      trucks =
        [\<lparr>t_pos = (0, 1), t_capacity = 40, current_load = 29 / 4, speed = 2,
           state = Patrolling, target = None, total_collected = 29 / 4,
           trips_made = 0, distance_traveled = 8\<rparr>,
         \<lparr>t_pos = (1, 1), t_capacity = 40, current_load = 0, speed = 1,
           state = Patrolling, target = None, total_collected = 0,
           trips_made = 0, distance_traveled = 4\<rparr>],
      disposal_site = Some \<lparr>d_pos = (0, 0), total_received = 0\<rparr>,
      rng_state = [0]\<rparr>"

text \<open>
  Between \<open>m\<close> and \<open>m'\<close> every building is untouched or was requesting pickup and is
  what \<^verbatim>\<open>collect_trash\<close> leaves of it.
\<close>

definition only_harvested :: "GarbageCollectionModel \<Rightarrow> GarbageCollectionModel \<Rightarrow> bool" where
  "only_harvested m m' \<longleftrightarrow>
     length (buildings m') = length (buildings m)
     \<and> (\<forall>j < length (buildings m).
           buildings m' ! j = buildings m ! j
           \<or> (pickup_requested (buildings m ! j)
              \<and> buildings m' ! j = snd (collect_trash (buildings m ! j))))"

subsection \<open>A request raised and served in one tick\<close>

text \<open>
  The lane constructed from another seed: after 3 ticks the truck of speed 2 stands on the
  building's cell, and the fourth tick activates the building first.
\<close>

definition lane_onsite_seed :: rng where
  "lane_onsite_seed =
     [1, 7 * 2 ^ 50, 0, 1, 0, 1, 1, 0, 0,
      0, 2, 1, 0, 0, 0, 0, 2, 1, 0, 0, 0, 0, 2, 1, 1, 1, 0, 3, 2, 1, 0]"

definition lane3_onsite :: GarbageCollectionModel where
  "lane3_onsite =
     \<lparr>width = 2, height = 2, n_buildings = 1, n_trucks = 2,
      buildings =
        [\<lparr>b_pos = (0, 1), trash_level = 87 / 16, b_capacity = 8,
           trash_generation_rate = 29 / 16, pickup_requested = False,
           total_trash_generated = 87 / 16, pickup_wait_time = 0\<rparr>],
      trucks =
        [\<lparr>t_pos = (0, 1), t_capacity = 40, current_load = 0, speed = 2,
           state = Patrolling, target = None, total_collected = 0,
           trips_made = 0, distance_traveled = 6\<rparr>,
         \<lparr>t_pos = (0, 0), t_capacity = 40, current_load = 0, speed = 1,
           state = Patrolling, target = None, total_collected = 0,
           trips_made = 0, distance_traveled = 3\<rparr>],
      disposal_site = Some \<lparr>d_pos = (0, 0), total_received = 0\<rparr>,
      rng_state = [3, 2, 1, 0]\<rparr>"

text \<open>
  One tick later: the building has raised its request and the first truck has claimed and
  harvested it, all in this tick.
\<close>

definition lane4_emptied :: GarbageCollectionModel where
  "lane4_emptied =
     \<lparr>width = 2, height = 2, n_buildings = 1, n_trucks = 2,
      buildings =
        [\<lparr>b_pos = (0, 1), trash_level = 0, b_capacity = 8,
           trash_generation_rate = 29 / 16, pickup_requested = False,
           total_trash_generated = 29 / 4, pickup_wait_time = 0\<rparr>],
      trucks =
        [\<lparr>t_pos = (0, 1), t_capacity = 40, current_load = 29 / 4, speed = 2,
           state = Patrolling, target = None, total_collected = 29 / 4,
           trips_made = 0, distance_traveled = 6\<rparr>,
         \<lparr>t_pos = (1, 1), t_capacity = 40, current_load = 0, speed = 1,
           state = Patrolling, target = None, total_collected = 0,
           trips_made = 0, distance_traveled = 4\<rparr>],
      disposal_site = Some \<lparr>d_pos = (0, 0), total_received = 0\<rparr>,
      rng_state = []\<rparr>"

subsection \<open>Runs without rounding\<close>







section \<open>Properties of a single building\<close>

lemmas building_defs =
  building_step_def generate_def raise_request_def count_wait_def collect_trash_def

text \<open>
  Claim C7. A harvest (\<^verbatim>\<open>collect_trash\<close>) of any building returns exactly the building's
  current fill and leaves the fill at 0, the pickup request cleared and the wait counter
  at 0: the whole fill is handed over in the one call.
\<close>

theorem collect_trash_harvests_all:
  "fst (collect_trash b) = trash_level b
   \<and> trash_level (snd (collect_trash b)) = 0
   \<and> pickup_requested (snd (collect_trash b)) = False
   \<and> pickup_wait_time (snd (collect_trash b)) = 0"
  by (simp add: collect_trash_def)

text \<open>
  Claim C9. A harvest changes nothing but the fill, the request flag and the wait counter:
  the capacity, the generation rate, the cumulative amount generated and the position are
  those before the call, and putting the three fields back gives the building as it was.
\<close>

theorem collect_trash_frame:
  "b_capacity (snd (collect_trash b)) = b_capacity b
   \<and> trash_generation_rate (snd (collect_trash b)) = trash_generation_rate b
   \<and> total_trash_generated (snd (collect_trash b)) = total_trash_generated b
   \<and> b_pos (snd (collect_trash b)) = b_pos b
   \<and> (snd (collect_trash b))\<lparr>trash_level := trash_level b,
         pickup_requested := pickup_requested b,
         pickup_wait_time := pickup_wait_time b\<rparr> = b"
  by (simp add: collect_trash_def)

section \<open>Agent operations and the invariant\<close>

lemma choice_nonempty:
  "xs \<noteq> [] \<Longrightarrow> \<exists>x rs'. choice xs rs = Inr (x, rs') \<and> x \<in> set xs"
  by (cases rs) (auto simp: choice_def randbelow_def)

lemma py_min_loop_mem: "min_key_loop f b xs \<in> set (b # xs)"
  by (induction xs arbitrary: b) auto

lemma py_min_nonempty: "xs \<noteq> [] \<Longrightarrow> \<exists>x. py_min f xs = Inr x \<and> x \<in> set xs"
  using py_min_loop_mem [of f "hd xs" "tl xs"]
  by (cases xs) (auto simp: py_min_def)

lemma try_move_op:
  "try_move i p q m = (b, m') \<Longrightarrow> truck_op i m m'"
  using truck_op.moves [of i m p "rng_state m"]
  by (auto simp: try_move_def Let_def truck_op.stays split: if_splits)

lemma move_randomly_op:
  "\<exists>m'. move_randomly i m = Inr m' \<and> truck_op i m m'"
proof -
  let ?valid = "filter (\<lambda>p. \<not> out_of_bounds m p \<and> \<not> truck_in_cell m p)
                       (get_neighborhood m (t_pos (trucks m ! i)))"
  show ?thesis
  proof (cases "?valid = []")
    case True
    then show ?thesis by (simp add: move_randomly_def truck_op.stays)
  next
    case False
    from choice_nonempty [OF this, of "rng_state m"]
    obtain x rs' where "choice ?valid (rng_state m) = Inr (x, rs')" by blast
    with False show ?thesis
      by (simp add: move_randomly_def truck_op.moves)
  qed
qed

lemma move_towards_op:
  "\<exists>m'. move_towards i q m = Inr m' \<and> truck_op i m m'"
  using move_randomly_op [of i m]
  by (auto simp: move_towards_def Let_def split: prod.splits bool.splits dest: try_move_op)

lemma patrol_op:
  assumes "state (trucks m ! i) = Patrolling"
  shows "\<exists>m'. patrol i m = Inr m' \<and> truck_op i m m'"
proof (cases "buildings_needing_pickup m = []")
  case True
  then show ?thesis using move_randomly_op [of i m] by (simp add: patrol_def)
next
  case False
  from py_min_nonempty [OF this]
  obtain j where "py_min (\<lambda>j. distance_to (t_pos (trucks m ! i)) (b_pos (buildings m ! j)))
                    (buildings_needing_pickup m) = Inr j"
    and "j \<in> set (buildings_needing_pickup m)" by blast
  with False assms show ?thesis
    by (simp add: patrol_def truck_op.claims)
qed

lemma collect_op:
  assumes "state (trucks m ! i) = Collecting"
  shows "\<exists>m'. collect i m = Inr m' \<and> truck_op i m m'"
  using assms move_towards_op [of i _ m]
  by (auto simp: collect_def truck_op.abandons truck_op.harvests split: option.splits)

lemma return_to_disposal_op:
  assumes "state (trucks m ! i) = Returning"
  shows "\<exists>m'. return_to_disposal i m = Inr m' \<and> truck_op i m m'"
  using assms move_towards_op [of i _ m]
  by (auto simp: return_to_disposal_def truck_op.stays truck_op.unloads split: option.splits)

lemma truck_substep_op: "\<exists>m'. truck_substep i m = Inr m' \<and> truck_op i m m'"
  using patrol_op [of m i] collect_op [of m i] return_to_disposal_op [of m i]
  by (cases "state (trucks m ! i)") (auto simp: truck_substep_def)

lemma sum_list_map_update:
  fixes f :: "'a \<Rightarrow> rat"
  shows "i < length xs \<Longrightarrow>
    sum_list (map f (xs[i := y])) = sum_list (map f xs) - f (xs ! i) + f y"
proof (induction xs arbitrary: i)
  case Nil
  then show ?case by simp
next
  case (Cons x xs)
  then show ?case by (cases i) auto
qed

lemma list_all_update:
  "list_all P xs \<Longrightarrow> P y \<Longrightarrow> list_all P (xs[i := y])"
  using set_update_subset_insert [of xs i y] by (auto simp: list_all_iff)

lemma building_step_ok: "building_ok b \<Longrightarrow> building_ok (building_step b)"
  by (auto simp: building_ok_def building_defs)

lemma building_step_balance:
  "total_trash_generated (building_step b) - trash_level (building_step b)
   = total_trash_generated b - trash_level b"
  by (simp add: building_defs)

lemma invariant_building_step:
  assumes "invariant m" and "j < length (buildings m)"
  shows "invariant (m\<lparr>buildings := (buildings m)[j := building_step (buildings m ! j)]\<rparr>)"
proof -
  let ?m = "m\<lparr>buildings := (buildings m)[j := building_step (buildings m ! j)]\<rparr>"
  from assms have "building_ok (buildings m ! j)"
    by (simp add: invariant_def list_all_length)
  then have "list_all building_ok (buildings ?m)"
    using assms(1) by (simp add: invariant_def list_all_update building_step_ok)
  moreover have "conserved ?m"
    using assms building_step_balance [of "buildings m ! j"]
    by (simp add: invariant_def conserved_def received_def sum_list_map_update)
  ultimately show ?thesis
    using assms(1) by (simp add: invariant_def)
qed

lemma exclusive_update:
  assumes "exclusive ts"
    and "target t' = None \<or> target t' = target (ts ! i) \<or> (\<forall>t \<in> set ts. target t \<noteq> target t')"
  shows "exclusive (ts[i := t'])"
  unfolding exclusive_def
proof (intro allI impI)
  fix a k j
  assume la: "a < length (ts[i := t'])" and lk: "k < length (ts[i := t'])"
    and eq: "target (ts[i := t'] ! a) = Some j \<and> target (ts[i := t'] ! k) = Some j"
  have old: "\<And>x y. x < length ts \<Longrightarrow> y < length ts \<Longrightarrow> target (ts ! x) = Some j \<Longrightarrow>
      target (ts ! y) = Some j \<Longrightarrow> x = y"
    using assms(1) unfolding exclusive_def by blast
  have mem: "\<And>n. n < length ts \<Longrightarrow> ts ! n \<in> set ts"
    by simp
  show "a = k"
  proof (cases "a = i")
    case True
    show ?thesis
    proof (cases "k = i")
      case True
      with \<open>a = i\<close> show ?thesis by simp
    next
      case False
      with True la lk eq have e: "target t' = Some j" "target (ts ! k) = Some j" "i < length ts"
        "k < length ts"
        by auto
      with assms(2) mem [of k] have "target (ts ! i) = Some j"
        by auto
      with e old [of i k] have "i = k" by simp
      with False show ?thesis by simp
    qed
  next
    case False
    show ?thesis
    proof (cases "k = i")
      case True
      with False la lk eq have e: "target t' = Some j" "target (ts ! a) = Some j" "i < length ts"
        "a < length ts"
        by auto
      with assms(2) mem [of a] have "target (ts ! i) = Some j"
        by auto
      with e old [of a i] have "a = i" by simp
      with False show ?thesis by simp
    next
      case nk: False
      with False la lk eq old [of a k] show ?thesis
        by simp
    qed
  qed
qed

lemma exclusive_update_None:
  "exclusive ts \<Longrightarrow> target t' = None \<Longrightarrow> exclusive (ts[i := t'])"
  by (simp add: exclusive_update)

lemma exclusive_update_same:
  "exclusive ts \<Longrightarrow> target t' = target (ts ! i) \<Longrightarrow> exclusive (ts[i := t'])"
  by (simp add: exclusive_update)

lemma exclusive_update_fresh:
  "exclusive ts \<Longrightarrow> \<forall>t \<in> set ts. target t \<noteq> Some j \<Longrightarrow> target t' = Some j \<Longrightarrow>
   exclusive (ts[i := t'])"
  by (simp add: exclusive_update)

lemma needing_pickup_D:
  assumes "j \<in> set (buildings_needing_pickup m)"
  shows "j < length (buildings m)" and "pickup_requested (buildings m ! j)"
    and "\<forall>t \<in> set (trucks m). target t \<noteq> Some j"
  using assms by (auto simp: buildings_needing_pickup_def is_targeted_def list_ex_iff)

lemma invariant_moves:
  assumes "invariant m" and "i < length (trucks m)"
  shows "invariant (move_agent i p (m\<lparr>rng_state := rs\<rparr>))"
proof -
  let ?t = "(trucks m ! i)\<lparr>t_pos := p, distance_traveled := distance_traveled (trucks m ! i) + 1\<rparr>"
  from assms have ok: "truck_ok (trucks m ! i)" "target_below (length (buildings m)) (trucks m ! i)"
    by (simp_all add: invariant_def list_all_length)
  have "truck_ok ?t" "target_below (length (buildings m)) ?t"
    using ok by (simp_all add: truck_ok_def target_below_def)
  moreover have "exclusive ((trucks m)[i := ?t])"
    using assms(1) by (simp add: invariant_def exclusive_update_same)
  moreover have "conserved (move_agent i p (m\<lparr>rng_state := rs\<rparr>))"
    using assms by (simp add: invariant_def conserved_def received_def move_agent_def
        sum_list_map_update)
  ultimately show ?thesis
    using assms(1) by (simp add: invariant_def move_agent_def list_all_update)
qed

lemma invariant_claims:
  assumes "invariant m" and "i < length (trucks m)"
    and "state (trucks m ! i) = Patrolling" and "j \<in> set (buildings_needing_pickup m)"
  shows "invariant (m\<lparr>trucks := (trucks m)[i := (trucks m ! i)\<lparr>target := Some j,
                                                               state := Collecting\<rparr>]\<rparr>)"
proof -
  let ?t = "(trucks m ! i)\<lparr>target := Some j, state := Collecting\<rparr>"
  from assms have ok: "truck_ok (trucks m ! i)"
    by (simp add: invariant_def list_all_length)
  have "truck_ok ?t" "target_below (length (buildings m)) ?t"
    using ok assms(3) needing_pickup_D(1) [OF assms(4)]
    by (simp_all add: truck_ok_def target_below_def)
  moreover have "exclusive ((trucks m)[i := ?t])"
    using assms(1) needing_pickup_D(3) [OF assms(4)]
    by (simp add: invariant_def exclusive_update_fresh)
  moreover have "conserved (m\<lparr>trucks := (trucks m)[i := ?t]\<rparr>)"
    using assms by (simp add: invariant_def conserved_def received_def sum_list_map_update)
  ultimately show ?thesis
    using assms(1) by (simp add: invariant_def list_all_update)
qed

lemma invariant_abandons:
  assumes "invariant m" and "i < length (trucks m)" and "state (trucks m ! i) = Collecting"
  shows "invariant (abandon i m)"
proof -
  let ?t = "(trucks m ! i)\<lparr>state := Patrolling, target := None\<rparr>"
  from assms have ok: "truck_ok (trucks m ! i)"
    by (simp add: invariant_def list_all_length)
  have "truck_ok ?t" "target_below (length (buildings m)) ?t"
    using ok assms(3) by (simp_all add: truck_ok_def target_below_def)
  moreover have "exclusive ((trucks m)[i := ?t])"
    using assms(1) by (simp add: invariant_def exclusive_update_None)
  moreover have "conserved (abandon i m)"
    using assms by (simp add: invariant_def conserved_def received_def abandon_def
        sum_list_map_update)
  ultimately show ?thesis
    using assms(1) by (simp add: invariant_def abandon_def list_all_update)
qed

lemma invariant_harvests:
  assumes "invariant m" and "i < length (trucks m)" and "state (trucks m ! i) = Collecting"
    and "target (trucks m ! i) = Some j"
  shows "invariant (harvest i j m)"
proof -
  let ?b = "buildings m ! j" and ?t = "trucks m ! i"
  let ?t1 = "?t\<lparr>current_load := current_load ?t + trash_level ?b,
                 total_collected := total_collected ?t + trash_level ?b, target := None\<rparr>"
  let ?t2 = "?t1\<lparr>state := (if current_load ?t1 \<ge> t_capacity ?t1 then Returning else Patrolling)\<rparr>"
  let ?b' = "?b\<lparr>trash_level := 0, pickup_requested := False, pickup_wait_time := 0\<rparr>"
  have h: "harvest i j m = m\<lparr>buildings := (buildings m)[j := ?b'], trucks := (trucks m)[i := ?t2]\<rparr>"
    by (simp add: harvest_def collect_trash_def Let_def)
  from assms have ok: "truck_ok ?t" "target_below (length (buildings m)) ?t"
    by (simp_all add: invariant_def list_all_length)
  with assms(4) have j: "j < length (buildings m)"
    by (simp add: target_below_def)
  with assms(1) have bok: "building_ok ?b"
    by (simp add: invariant_def list_all_length)
  have "building_ok ?b'"
    using bok by (simp add: building_ok_def)
  moreover have "truck_ok ?t2"
    using ok(1) bok assms(3) by (simp add: truck_ok_def building_ok_def)
  moreover have "target_below (length (buildings m)) ?t2"
    by (simp add: target_below_def)
  moreover have "exclusive ((trucks m)[i := ?t2])"
    using assms(1) by (simp add: invariant_def exclusive_update_None)
  moreover have "conserved (harvest i j m)"
    using assms(1,2) j
    by (simp add: h invariant_def conserved_def received_def sum_list_map_update)
  ultimately show ?thesis
    using assms(1) by (simp add: h invariant_def list_all_update)
qed

lemma invariant_unloads:
  assumes "invariant m" and "i < length (trucks m)" and "disposal_site m = Some d"
  shows "invariant (unload i d m)"
proof -
  let ?t = "trucks m ! i"
  let ?t' = "?t\<lparr>current_load := 0, trips_made := trips_made ?t + 1, state := Patrolling\<rparr>"
  from assms have ok: "truck_ok ?t" "target_below (length (buildings m)) ?t"
    by (simp_all add: invariant_def list_all_length)
  have "truck_ok ?t'" "target_below (length (buildings m)) ?t'"
    using ok by (simp_all add: truck_ok_def target_below_def)
  moreover have "exclusive ((trucks m)[i := ?t'])"
    using assms(1) by (simp add: invariant_def exclusive_update_same)
  moreover have "conserved (unload i d m)"
    using assms
    by (simp add: invariant_def conserved_def received_def unload_def receive_trash_def
        Let_def sum_list_map_update)
  ultimately show ?thesis
    using assms(1) by (simp add: invariant_def unload_def Let_def list_all_update)
qed

lemma invariant_truck_op:
  assumes "truck_op i m m'" and "invariant m" and "i < length (trucks m)"
  shows "invariant m'"
  using assms
  by (cases rule: truck_op.cases)
     (simp_all add: invariant_moves invariant_claims invariant_abandons invariant_harvests
        invariant_unloads)

lemma randbelow_less: "0 < n \<Longrightarrow> fst (randbelow n rs) < n"
  by (cases rs) (simp_all add: randbelow_def)

lemma shuffle_loop_mset:
  "n < length xs \<Longrightarrow> mset (fst (shuffle_loop n xs rs)) = mset xs"
proof (induction n arbitrary: xs rs)
  case 0
  then show ?case by simp
next
  case (Suc n)
  obtain j rs' where r: "randbelow (Suc n + 1) rs = (j, rs')"
    by (cases "randbelow (Suc n + 1) rs")
  with randbelow_less [of "Suc n + 1" rs] have "j < Suc n + 1" by simp
  with Suc.prems have j: "j < length xs" by simp
  let ?ys = "xs[Suc n := xs ! j, j := xs ! Suc n]"
  have "mset ?ys = mset xs"
    using mset_swap [of j xs "Suc n"] j Suc.prems by simp
  moreover have "mset (fst (shuffle_loop n ?ys rs')) = mset ?ys"
    using Suc.prems by (intro Suc.IH) simp
  ultimately show ?case using r by simp
qed

lemma shuffle_mset: "mset (fst (shuffle xs rs)) = mset xs"
  by (cases "xs = []") (simp_all add: shuffle_def shuffle_loop_mset)

lemma truck_op_shape:
  assumes "truck_op i m m'"
  shows "length (buildings m') = length (buildings m)"
    and "length (trucks m') = length (trucks m)"
    and "disposal_site m' = None \<longleftrightarrow> disposal_site m = None"
  using assms
  by (cases rule: truck_op.cases;
      simp add: move_agent_def abandon_def harvest_def unload_def Let_def split: prod.splits)+

lemma truck_op_schedule: "truck_op i m m' \<Longrightarrow> schedule_agents m' = schedule_agents m"
  using truck_op_shape [of i m m']
  by (cases "disposal_site m"; cases "disposal_site m'") (auto simp: schedule_agents_def)

lemma truck_loop_preserves:
  assumes "truck_stable P"
  shows "P m \<Longrightarrow> i < length (trucks m) \<Longrightarrow>
    \<exists>m'. truck_loop k i m = Inr m' \<and> P m' \<and> schedule_agents m' = schedule_agents m"
proof (induction k arbitrary: m)
  case 0
  then show ?case by simp
next
  case (Suc k)
  from truck_substep_op [of i m] obtain m1 where
    m1: "truck_substep i m = Inr m1" "truck_op i m m1" by blast
  with Suc.prems assms have "P m1" "i < length (trucks m1)"
    unfolding truck_stable_def by (blast, simp add: truck_op_shape)
  from Suc.IH [OF this] m1 show ?case
    by (auto simp: truck_op_schedule)
qed

lemma agent_step_preserves:
  assumes "stable P" and "P m" and "a \<in> set (schedule_agents m)"
  shows "\<exists>m'. agent_step a m = Inr m' \<and> P m' \<and> schedule_agents m' = schedule_agents m"
proof (cases a)
  case (Building j)
  with assms(3) have "j < length (buildings m)"
    by (auto simp: schedule_agents_def split: option.splits)
  with assms(1,2) have "P (m\<lparr>buildings := (buildings m)[j := building_step (buildings m ! j)]\<rparr>)"
    unfolding stable_def by blast
  with Building show ?thesis
    by (simp add: agent_step_def schedule_agents_def)
next
  case (Truck i)
  with assms(3) have "i < length (trucks m)"
    by (auto simp: schedule_agents_def split: option.splits)
  moreover from assms(1) have ts: "truck_stable P"
    by (simp add: stable_def)
  ultimately show ?thesis
    using Truck truck_loop_preserves [where P = P, OF ts assms(2), of i]
    by (simp add: agent_step_def truck_step_def)
next
  case Disposal
  with assms(2) show ?thesis by (simp add: agent_step_def)
qed

lemma step_agents_preserves:
  assumes "stable P"
  shows "P m \<Longrightarrow> set as \<subseteq> set (schedule_agents m) \<Longrightarrow>
    \<exists>m'. step_agents as m = Inr m' \<and> P m' \<and> schedule_agents m' = schedule_agents m"
proof (induction as arbitrary: m)
  case Nil
  then show ?case by simp
next
  case (Cons a as)
  from agent_step_preserves [OF assms Cons.prems(1), of a] Cons.prems(2)
  obtain m1 where m1: "agent_step a m = Inr m1" "P m1" "schedule_agents m1 = schedule_agents m"
    by auto
  with Cons.prems have "set as \<subseteq> set (schedule_agents m1)" by simp
  from Cons.IH [OF m1(2) this] m1 show ?case by auto
qed

lemma activation_order_set: "set (activation_order m) = set (schedule_agents m)"
  using shuffle_mset [of "schedule_agents m" "rng_state m"]
  by (metis activation_order_def set_mset_mset)

lemma model_step_preserves:
  assumes "stable P" and "P m"
  shows "\<exists>m'. model_step m = Inr m' \<and> P m' \<and> schedule_agents m' = schedule_agents m"
proof -
  obtain order rs where sh: "shuffle (schedule_agents m) (rng_state m) = (order, rs)"
    by (cases "shuffle (schedule_agents m) (rng_state m)")
  then have "set order = set (schedule_agents m)"
    using activation_order_set [of m] by (simp add: activation_order_def)
  then have sub: "set order \<subseteq> set (schedule_agents (m\<lparr>rng_state := rs\<rparr>))"
    by (simp add: schedule_agents_def)
  from assms have "P (m\<lparr>rng_state := rs\<rparr>)"
    unfolding stable_def by blast
  from step_agents_preserves [OF assms(1) this sub]
  show ?thesis using sh by (simp add: model_step_def schedule_agents_def)
qed

lemma invariant_rng: "invariant m \<Longrightarrow> invariant (m\<lparr>rng_state := rs\<rparr>)"
  by (simp add: invariant_def conserved_def received_def)

lemma stable_invariant: "stable invariant"
  unfolding stable_def truck_stable_def
  using invariant_building_step invariant_truck_op invariant_rng by blast

lemma model_step_invariant:
  "invariant m \<Longrightarrow> \<exists>m'. model_step m = Inr m' \<and> invariant m'"
  using model_step_preserves [OF stable_invariant] by blast

section \<open>Construction\<close>

lemma all_cells_distinct: "distinct (all_cells m)"
  unfolding all_cells_def
  by (rule distinct_map [THEN iffD2]) (auto simp: distinct_product inj_on_def)

lemma all_cells_length: "length (all_cells m) = nat (width m) * nat (height m)"
  by (simp add: all_cells_def)

lemma all_cells_mem:
  "(x, y) \<in> set (all_cells m) \<longleftrightarrow> 0 \<le> x \<and> x < width m \<and> 0 \<le> y \<and> y < height m"
proof
  assume "(x, y) \<in> set (all_cells m)"
  then show "0 \<le> x \<and> x < width m \<and> 0 \<le> y \<and> y < height m"
    by (auto simp: all_cells_def)
next
  assume a: "0 \<le> x \<and> x < width m \<and> 0 \<le> y \<and> y < height m"
  then have "(nat x, nat y) \<in> set (List.product [0 ..< nat (width m)] [0 ..< nat (height m)])"
    by auto
  then have "(\<lambda>(x, y). (int x, int y)) (nat x, nat y) \<in> set (all_cells m)"
    unfolding all_cells_def set_map by (rule imageI)
  with a show "(x, y) \<in> set (all_cells m)" by simp
qed

lemma is_cell_empty_occupied:
  "disposal_site m = None \<Longrightarrow> is_cell_empty m p \<longleftrightarrow> p \<notin> set (occupied m)"
  by (auto simp: is_cell_empty_def occupied_def list_ex_iff)

lemma empties_length:
  assumes "under_construction w h m"
  shows "length (empties m) = nat w * nat h - length (occupied m)"
proof -
  from assms have n: "disposal_site m = None" and d: "distinct (occupied m)"
    and s: "set (occupied m) \<subseteq> set (all_cells m)" and wh: "width m = w" "height m = h"
    by (simp_all add: under_construction_def)
  have "empties m = filter (\<lambda>p. p \<notin> set (occupied m)) (all_cells m)"
    using n by (simp add: empties_def is_cell_empty_occupied cong: filter_cong)
  then have "length (empties m) = card (set (all_cells m) - set (occupied m))"
    using all_cells_distinct [of m]
    by (simp add: distinct_length_filter Diff_eq Int_commute Collect_neg_eq)
  also have "\<dots> = card (set (all_cells m)) - card (set (occupied m))"
    using s by (simp add: card_Diff_subset)
  finally show ?thesis
    using d all_cells_distinct [of m] wh by (simp add: distinct_card all_cells_length)
qed

lemma occupied_le:
  assumes "under_construction w h m"
  shows "length (occupied m) \<le> nat w * nat h"
proof -
  from assms have "card (set (occupied m)) \<le> card (set (all_cells m))"
    by (intro card_mono) (simp_all add: under_construction_def)
  with assms all_cells_distinct [of m] show ?thesis
    by (simp add: under_construction_def distinct_card all_cells_length)
qed

lemma find_empty_cases:
  assumes "under_construction w h m"
  shows "(length (occupied m) = nat w * nat h \<and> find_empty m = Inr (None, rng_state m))
    \<or> (length (occupied m) < nat w * nat h
        \<and> (\<exists>p rs. find_empty m = Inr (Some p, rs) \<and> p \<in> set (all_cells m) \<and> p \<notin> set (occupied m)))"
proof (cases "empties m = []")
  case True
  with empties_length [OF assms] occupied_le [OF assms] show ?thesis
    by (simp add: find_empty_def)
next
  case False
  from choice_nonempty [OF this, of "rng_state m"] obtain p rs where
    c: "choice (empties m) (rng_state m) = Inr (p, rs)" "p \<in> set (empties m)" by blast
  from assms c(2) have "p \<in> set (all_cells m)" "p \<notin> set (occupied m)"
    by (simp_all add: empties_def is_cell_empty_occupied under_construction_def)
  moreover from False empties_length [OF assms] have "length (occupied m) < nat w * nat h"
    by (cases "length (occupied m) < nat w * nat h") simp_all
  ultimately show ?thesis
    using False c(1) by (simp add: find_empty_def)
qed

lemma randint_range:
  "a \<le> b \<Longrightarrow> a \<le> fst (randint a b rs) \<and> fst (randint a b rs) \<le> b"
proof -
  assume ab: "a \<le> b"
  obtain k rs' where k: "randbelow (nat (b - a + 1)) rs = (k, rs')"
    by (cases "randbelow (nat (b - a + 1)) rs")
  with ab randbelow_less [of "nat (b - a + 1)" rs] have "int k < b - a + 1" by simp
  with k show ?thesis by (simp add: randint_def)
qed

lemma all_cells_cong:
  "width m' = width m \<Longrightarrow> height m' = height m \<Longrightarrow> all_cells m' = all_cells m"
  by (simp add: all_cells_def)

lemma uniform_range:
  "a < b \<Longrightarrow> a \<le> fst (uniform a b rs) \<and> fst (uniform a b rs) < b"
proof -
  assume ab: "a < b"
  obtain k rs' where k: "randbelow (2 ^ 53) rs = (k, rs')"
    by (cases "randbelow (2 ^ 53) rs")
  with randbelow_less [of "2 ^ 53" rs] have "k < 2 ^ 53" by simp
  then have "(of_nat k :: rat) < 2 ^ 53"
    by (metis of_nat_less_iff of_nat_numeral of_nat_power)
  then have u: "0 \<le> (of_nat k / 2 ^ 53 :: rat)" "(of_nat k / 2 ^ 53 :: rat) < 1"
    by simp_all
  have "(b - a) * (of_nat k / 2 ^ 53) < (b - a) * 1"
    using ab u(2) by (intro mult_strict_left_mono) simp_all
  moreover have "0 \<le> (b - a) * (of_nat k / 2 ^ 53)"
    using ab u(1) by (intro mult_nonneg_nonneg) simp_all
  ultimately show ?thesis
    using k by (simp add: uniform_def py_random_def)
qed

lemma target_below_mono:
  "list_all (target_below n) ts \<Longrightarrow> list_all (target_below (Suc n)) ts"
  by (auto simp: list_all_iff target_below_def split: option.splits)

lemma exclusive_append_None:
  assumes "exclusive ts" and "target t = None"
  shows "exclusive (ts @ [t])"
  unfolding exclusive_def
proof (intro allI impI)
  fix i k j
  assume "i < length (ts @ [t])" "k < length (ts @ [t])"
    and "target ((ts @ [t]) ! i) = Some j \<and> target ((ts @ [t]) ! k) = Some j"
  with assms show "i = k"
    unfolding exclusive_def by (auto simp: nth_append split: if_splits)
qed

lemma create_building_step:
  assumes "under_construction w h m"
  shows "\<exists>m'. create_building m = Inr m' \<and> under_construction w h m'
    \<and> trucks m' = trucks m \<and> n_buildings m' = n_buildings m \<and> n_trucks m' = n_trucks m
    \<and> length (buildings m') = (if length (occupied m) < nat w * nat h
                                then Suc (length (buildings m)) else length (buildings m))"
proof -
  from find_empty_cases [OF assms] show ?thesis
  proof (elim disjE conjE exE)
    assume "length (occupied m) = nat w * nat h" "find_empty m = Inr (None, rng_state m)"
    with assms show ?thesis by (simp add: create_building_def)
  next
    fix p rs
    assume lt: "length (occupied m) < nat w * nat h" and f: "find_empty m = Inr (Some p, rs)"
      and p: "p \<in> set (all_cells m)" "p \<notin> set (occupied m)"
    obtain rate rs1 where r: "uniform (1 / 2) 2 rs = (rate, rs1)"
      by (cases "uniform (1 / 2) 2 rs")
    obtain cap rs2 where c: "randint 8 15 rs1 = (cap, rs2)"
      by (cases "randint 8 15 rs1")
    let ?b = "BuildingAgent_init p rate (of_int cap)"
    let ?m = "m\<lparr>buildings := buildings m @ [?b], rng_state := rs2\<rparr>"
    have m': "create_building m = Inr ?m"
      using f r c by (simp add: create_building_def)
    from uniform_range [of "1 / 2" 2 rs] r have rate: "1 / 2 \<le> rate" "rate < 2" by simp_all
    from randint_range [of 8 15 rs1] c have cap: "8 \<le> cap" "cap \<le> 15" by simp_all
    then have "(8 :: rat) \<le> of_int cap" "(of_int cap :: rat) \<le> 15"
      by linarith+
    with rate have ok: "building_ok ?b"
      by (simp add: building_ok_def BuildingAgent_init_def)
    have occ: "set (occupied ?m) = insert p (set (occupied m))" "distinct (occupied ?m)"
      using assms p by (auto simp: occupied_def BuildingAgent_init_def under_construction_def)
    have "invariant ?m"
      using assms ok
      by (simp add: under_construction_def invariant_def target_below_mono conserved_def
          received_def BuildingAgent_init_def)
    moreover have "all_cells ?m = all_cells m"
      by (rule all_cells_cong) simp_all
    ultimately have "under_construction w h ?m"
      using assms occ p(1) by (simp add: under_construction_def)
    with m' lt show ?thesis by simp
  qed
qed

lemma create_truck_step:
  assumes "under_construction w h m"
  shows "\<exists>m'. create_truck m = Inr m' \<and> under_construction w h m'
    \<and> buildings m' = buildings m \<and> n_buildings m' = n_buildings m \<and> n_trucks m' = n_trucks m
    \<and> length (trucks m') = (if length (occupied m) < nat w * nat h
                             then Suc (length (trucks m)) else length (trucks m))"
proof -
  from find_empty_cases [OF assms] show ?thesis
  proof (elim disjE conjE exE)
    assume "length (occupied m) = nat w * nat h" "find_empty m = Inr (None, rng_state m)"
    with assms show ?thesis by (simp add: create_truck_def)
  next
    fix p rs
    assume lt: "length (occupied m) < nat w * nat h" and f: "find_empty m = Inr (Some p, rs)"
      and p: "p \<in> set (all_cells m)" "p \<notin> set (occupied m)"
    obtain cap rs1 where c: "randint 40 60 rs = (cap, rs1)"
      by (cases "randint 40 60 rs")
    obtain spd rs2 where s: "randint 1 2 rs1 = (spd, rs2)"
      by (cases "randint 1 2 rs1")
    let ?t = "TruckAgent_init p (of_int cap) spd"
    let ?m = "m\<lparr>trucks := trucks m @ [?t], rng_state := rs2\<rparr>"
    have m': "create_truck m = Inr ?m"
      using f s c by (simp add: create_truck_def)
    from randint_range [of 40 60 rs] c have cap: "40 \<le> cap" "cap \<le> 60" by simp_all
    then have "(40 :: rat) \<le> of_int cap" "(of_int cap :: rat) \<le> 60"
      by linarith+
    moreover from randint_range [of 1 2 rs1] s have "spd = 1 \<or> spd = 2" by auto
    ultimately have ok: "truck_ok ?t" "target_below (length (buildings m)) ?t"
      by (simp_all add: truck_ok_def target_below_def TruckAgent_init_def)
    have occ: "set (occupied ?m) = insert p (set (occupied m))" "distinct (occupied ?m)"
      using assms p by (auto simp: occupied_def TruckAgent_init_def under_construction_def)
    have "invariant ?m"
      using assms ok
      by (simp add: under_construction_def invariant_def exclusive_append_None conserved_def
          received_def TruckAgent_init_def)
    moreover have "all_cells ?m = all_cells m"
      by (rule all_cells_cong) simp_all
    ultimately have "under_construction w h ?m"
      using assms occ p(1) by (simp add: under_construction_def)
    with m' lt show ?thesis by simp
  qed
qed

lemma occupied_length: "length (occupied m) = length (buildings m) + length (trucks m)"
  by (simp add: occupied_def)

lemma create_buildings_loop:
  "under_construction w h m \<Longrightarrow>
   \<exists>m'. repeat k create_building m = Inr m' \<and> under_construction w h m'
     \<and> trucks m' = trucks m \<and> n_buildings m' = n_buildings m \<and> n_trucks m' = n_trucks m
     \<and> length (buildings m') = min (length (buildings m) + k) (nat w * nat h - length (trucks m))"
proof (induction k arbitrary: m)
  case 0
  with occupied_le [of w h m] show ?case
    by (simp add: occupied_length)
next
  case (Suc k)
  from create_building_step [OF Suc.prems] obtain m1 where
    m1: "create_building m = Inr m1" "under_construction w h m1" "trucks m1 = trucks m"
      "n_buildings m1 = n_buildings m" "n_trucks m1 = n_trucks m"
      "length (buildings m1) = (if length (occupied m) < nat w * nat h
                                then Suc (length (buildings m)) else length (buildings m))"
    by blast
  from Suc.IH [OF m1(2)] m1 occupied_le [OF Suc.prems] show ?case
    by (auto simp: occupied_length min_def split: if_splits)
qed

lemma create_trucks_loop:
  "under_construction w h m \<Longrightarrow>
   \<exists>m'. repeat k create_truck m = Inr m' \<and> under_construction w h m'
     \<and> buildings m' = buildings m \<and> n_buildings m' = n_buildings m \<and> n_trucks m' = n_trucks m
     \<and> length (trucks m') = min (length (trucks m) + k) (nat w * nat h - length (buildings m))"
proof (induction k arbitrary: m)
  case 0
  with occupied_le [of w h m] show ?case
    by (simp add: occupied_length)
next
  case (Suc k)
  from create_truck_step [OF Suc.prems] obtain m1 where
    m1: "create_truck m = Inr m1" "under_construction w h m1" "buildings m1 = buildings m"
      "n_buildings m1 = n_buildings m" "n_trucks m1 = n_trucks m"
      "length (trucks m1) = (if length (occupied m) < nat w * nat h
                             then Suc (length (trucks m)) else length (trucks m))"
    by blast
  from Suc.IH [OF m1(2)] m1 occupied_le [OF Suc.prems] show ?case
    by (auto simp: occupied_length min_def split: if_splits)
qed

lemma length_filter_nth:
  "length (filter (\<lambda>j. P (xs ! j)) [0 ..< length xs]) = length (filter P xs)"
proof -
  have "filter P (map (nth xs) [0 ..< length xs])
      = map (nth xs) (filter (P \<circ> nth xs) [0 ..< length xs])"
    by (rule filter_map)
  then have "length (filter P xs) = length (filter (P \<circ> nth xs) [0 ..< length xs])"
    by (simp add: map_nth)
  then show ?thesis by (simp add: comp_def)
qed

lemma cell_contents_length:
  "length (cell_contents m p) = length (filter (\<lambda>q. q = p) (occupied m))"
  using length_filter_nth [of "\<lambda>b. b_pos b = p" "buildings m"]
    length_filter_nth [of "\<lambda>t. t_pos t = p" "trucks m"]
  by (simp add: cell_contents_def occupied_def filter_map comp_def)

lemma cell_contents_single:
  assumes "distinct (occupied m)"
  shows "length (cell_contents m p) \<le> 1"
proof -
  have "card ({q. q = p} \<inter> set (occupied m)) \<le> card {p}"
    by (intro card_mono) auto
  with assms show ?thesis
    by (simp add: cell_contents_length distinct_length_filter)
qed

lemma cell_contents_nonempty:
  assumes "p \<in> set (occupied m)"
  shows "cell_contents m p \<noteq> []"
proof -
  from assms have "filter (\<lambda>q. q = p) (occupied m) \<noteq> []"
    by (simp add: filter_empty_conv)
  then have "length (cell_contents m p) \<noteq> 0"
    by (simp add: cell_contents_length)
  then show ?thesis by auto
qed

lemma map_update_same:
  "f y = f (xs ! j) \<Longrightarrow> map f (xs[j := y]) = map f xs"
  by (cases "j < length xs") (simp_all add: map_update list_update_same_conv list_update_beyond)

lemma invariant_place:
  assumes "invariant m"
  shows "invariant (place a q m)"
proof (cases a)
  case (Building j)
  let ?bs = "(buildings m)[j := (buildings m ! j)\<lparr>b_pos := q\<rparr>]"
  have "map trash_level ?bs = map trash_level (buildings m)"
    "map total_trash_generated ?bs = map total_trash_generated (buildings m)"
    by (simp_all add: map_update_same)
  moreover have "list_all building_ok ?bs"
  proof (cases "j < length (buildings m)")
    case True
    with assms have "building_ok (buildings m ! j)"
      by (simp add: invariant_def list_all_length)
    then have "building_ok ((buildings m ! j)\<lparr>b_pos := q\<rparr>)"
      by (simp add: building_ok_def)
    with assms show ?thesis by (simp add: invariant_def list_all_update)
  next
    case False
    with assms show ?thesis by (simp add: invariant_def list_update_beyond)
  qed
  ultimately show ?thesis
    using assms Building by (simp add: invariant_def place_def conserved_def received_def)
next
  case (Truck i)
  let ?ts = "(trucks m)[i := (trucks m ! i)\<lparr>t_pos := q\<rparr>]"
  have "map current_load ?ts = map current_load (trucks m)"
    by (simp add: map_update_same)
  moreover have "list_all truck_ok ?ts \<and> list_all (target_below (length (buildings m))) ?ts"
  proof (cases "i < length (trucks m)")
    case True
    with assms have "truck_ok (trucks m ! i)" "target_below (length (buildings m)) (trucks m ! i)"
      by (simp_all add: invariant_def list_all_length)
    then have "truck_ok ((trucks m ! i)\<lparr>t_pos := q\<rparr>)"
      "target_below (length (buildings m)) ((trucks m ! i)\<lparr>t_pos := q\<rparr>)"
      by (simp_all add: truck_ok_def target_below_def)
    with assms show ?thesis by (simp add: invariant_def list_all_update)
  next
    case False
    with assms show ?thesis by (simp add: invariant_def list_update_beyond)
  qed
  moreover have "exclusive ?ts"
    using assms by (simp add: invariant_def exclusive_update_same)
  ultimately show ?thesis
    using assms Truck by (simp add: invariant_def place_def conserved_def received_def)
next
  case Disposal
  with assms show ?thesis by (simp add: place_def)
qed

lemma corner_lookup:
  "0 < width m \<Longrightarrow> 0 < height m \<Longrightarrow>
   grid_is_cell_empty m (0, 0) = Inr (is_cell_empty m (0, 0))"
  by (simp add: grid_is_cell_empty_def)

lemma create_disposal_site_full:
  assumes "under_construction w h m" and "length (occupied m) = nat w * nat h"
  shows "create_disposal_site m = Inl NoEmptyCells"
proof -
  from assms(1) have look: "grid_is_cell_empty m (0, 0) = Inr (is_cell_empty m (0, 0))"
    by (intro corner_lookup) (simp_all add: under_construction_def)
  from assms have e: "empties m = []"
    using empties_length [OF assms(1)] by simp
  have "card (set (occupied m)) = card (set (all_cells m))"
    using assms all_cells_distinct [of m]
    by (simp add: under_construction_def distinct_card all_cells_length)
  with assms(1) have "set (occupied m) = set (all_cells m)"
    by (intro card_subset_eq) (simp_all add: under_construction_def)
  moreover from assms(1) have "(0, 0) \<in> set (all_cells m)"
    by (simp add: all_cells_mem under_construction_def)
  ultimately have o: "(0, 0) \<in> set (occupied m)" by simp
  with assms(1) have "\<not> is_cell_empty m (0, 0)"
    by (simp add: is_cell_empty_occupied under_construction_def)
  moreover from cell_contents_nonempty [OF o] obtain a as where
    "cell_contents m (0, 0) = a # as" by (cases "cell_contents m (0, 0)") auto
  ultimately show ?thesis
    using e look by (simp add: create_disposal_site_def move_to_empty_def)
qed

lemma create_disposal_site_room:
  assumes "under_construction w h m" and "length (occupied m) < nat w * nat h"
  shows "\<exists>m'. create_disposal_site m = Inr m' \<and> invariant m'
    \<and> length (buildings m') = length (buildings m) \<and> length (trucks m') = length (trucks m)
    \<and> width m' = w \<and> height m' = h
    \<and> disposal_site m' = Some \<lparr>d_pos = (0, 0), total_received = 0\<rparr>"
proof -
  let ?d = "\<lparr>d_pos = (0, 0), total_received = 0\<rparr>"
  have fin: "\<And>m1. invariant m1 \<Longrightarrow> disposal_site m1 = None \<Longrightarrow>
      invariant (m1\<lparr>disposal_site := Some ?d\<rparr>)"
    by (simp add: invariant_def conserved_def received_def)
  from assms have inv: "invariant m" and none: "disposal_site m = None"
    and wh: "width m = w" "height m = h"
    by (simp_all add: under_construction_def)
  from assms(1) have look: "grid_is_cell_empty m (0, 0) = Inr (is_cell_empty m (0, 0))"
    by (intro corner_lookup) (simp_all add: under_construction_def)
  show ?thesis
  proof (cases "is_cell_empty m (0, 0)")
    case True
    with fin [OF inv none] wh look show ?thesis
      by (simp add: create_disposal_site_def)
  next
    case False
    from assms empties_length [OF assms(1)] have ne: "empties m \<noteq> []"
      by auto
    from choice_nonempty [OF ne, of "rng_state m"] obtain q rs where
      c: "choice (empties m) (rng_state m) = Inr (q, rs)" by blast
    from assms(1) cell_contents_single [of m "(0, 0)"]
    have "length (cell_contents m (0, 0)) \<le> 1"
      by (simp add: under_construction_def)
    then consider "cell_contents m (0, 0) = []" | a where "cell_contents m (0, 0) = [a]"
      by (cases "cell_contents m (0, 0)") auto
    then show ?thesis
    proof cases
      case 1
      with False fin [OF inv none] wh look show ?thesis
        by (simp add: create_disposal_site_def)
    next
      case 2
      let ?m1 = "place a q (m\<lparr>rng_state := rs\<rparr>)"
      have "invariant ?m1"
        using inv by (intro invariant_place) (simp add: invariant_rng)
      moreover have "disposal_site ?m1 = None" "width ?m1 = w" "height ?m1 = h"
        "length (buildings ?m1) = length (buildings m)" "length (trucks ?m1) = length (trucks m)"
        using none wh by (cases a; simp add: place_def)+
      ultimately show ?thesis
        using 2 False ne c fin [of ?m1] look
        by (simp add: create_disposal_site_def move_to_empty_def)
    qed
  qed
qed

lemma no_cells:
  assumes "width m \<le> 0 \<or> height m \<le> 0"
  shows "empties m = []"
proof -
  from assms have "length (all_cells m) = 0"
    by (auto simp: all_cells_length)
  then show ?thesis by (simp add: empties_def)
qed

lemma create_building_no_cells:
  "width m \<le> 0 \<or> height m \<le> 0 \<Longrightarrow> create_building m = Inr m"
  by (simp add: create_building_def find_empty_def no_cells)

lemma create_truck_no_cells:
  "width m \<le> 0 \<or> height m \<le> 0 \<Longrightarrow> create_truck m = Inr m"
  by (simp add: create_truck_def find_empty_def no_cells)

lemma repeat_no_cells:
  assumes "width m \<le> 0 \<or> height m \<le> 0"
    and "\<And>m. width m \<le> 0 \<or> height m \<le> 0 \<Longrightarrow> body m = Inr m"
  shows "repeat k body m = Inr m"
  using assms by (induction k) simp_all

lemma init_dimension:
  assumes "w \<le> 0 \<or> h \<le> 0"
  shows "GarbageCollectionModel_init w h nb nt rs = Inl IndexError"
proof -
  let ?m0 = "\<lparr>width = w, height = h, n_buildings = nb, n_trucks = nt, buildings = [],
              trucks = [], disposal_site = None, rng_state = rs\<rparr>"
  from assms have d: "width ?m0 \<le> 0 \<or> height ?m0 \<le> 0" by simp
  have b: "create_buildings ?m0 = Inr ?m0"
    unfolding create_buildings_def
    by (rule repeat_no_cells [OF d]) (rule create_building_no_cells)
  have t: "create_trucks ?m0 = Inr ?m0"
    unfolding create_trucks_def
    by (rule repeat_no_cells [OF d]) (rule create_truck_no_cells)
  from assms have "create_disposal_site ?m0 = Inl IndexError"
    by (auto simp: create_disposal_site_def grid_is_cell_empty_def)
  with b t show ?thesis
    by (simp add: GarbageCollectionModel_init_def)
qed

lemma init_agents:
  assumes "0 < w" and "0 < h"
  shows "\<exists>m. create_buildings
                \<lparr>width = w, height = h, n_buildings = nb, n_trucks = nt, buildings = [],
                 trucks = [], disposal_site = None, rng_state = rs\<rparr> = Inr m
    \<and> (\<exists>m'. create_trucks m = Inr m' \<and> under_construction w h m'
          \<and> length (buildings m') = min (nat nb) (nat w * nat h)
          \<and> length (trucks m') = min (nat nt) (nat w * nat h - min (nat nb) (nat w * nat h)))"
proof -
  let ?m0 = "\<lparr>width = w, height = h, n_buildings = nb, n_trucks = nt, buildings = [],
              trucks = [], disposal_site = None, rng_state = rs\<rparr>"
  have "under_construction w h ?m0"
    using assms
    by (simp add: under_construction_def occupied_def invariant_def exclusive_def conserved_def
        received_def)
  from create_buildings_loop [OF this, of "nat nb"] obtain m1 where
    m1: "create_buildings ?m0 = Inr m1" "under_construction w h m1" "trucks m1 = []"
      "n_trucks m1 = nt" "length (buildings m1) = min (nat nb) (nat w * nat h)"
    by (auto simp: create_buildings_def)
  from create_trucks_loop [OF m1(2), of "nat nt"] m1 obtain m2 where
    "create_trucks m1 = Inr m2" "under_construction w h m2"
    "length (buildings m2) = min (nat nb) (nat w * nat h)"
    "length (trucks m2) = min (nat nt) (nat w * nat h - min (nat nb) (nat w * nat h))"
    by (auto simp: create_trucks_def)
  with m1(1) show ?thesis by blast
qed

lemma fill_full: "(c::nat) \<le> b + t \<Longrightarrow> min b c + min t (c - min b c) = c"
  by arith

lemma fill_room: "b + t < (c::nat) \<Longrightarrow> min b c = b \<and> min t (c - min b c) = t"
  by arith

lemma init_full:
  assumes "0 < w" and "0 < h" and "nat w * nat h \<le> nat nb + nat nt"
  shows "GarbageCollectionModel_init w h nb nt rs = Inl NoEmptyCells"
proof -
  from init_agents [OF assms(1,2), of nb nt rs] obtain m1 m2 where
    m: "create_buildings \<lparr>width = w, height = h, n_buildings = nb, n_trucks = nt, buildings = [],
                 trucks = [], disposal_site = None, rng_state = rs\<rparr> = Inr m1"
      "create_trucks m1 = Inr m2" "under_construction w h m2"
      "length (buildings m2) = min (nat nb) (nat w * nat h)"
      "length (trucks m2) = min (nat nt) (nat w * nat h - min (nat nb) (nat w * nat h))"
    by blast
  with fill_full [OF assms(3)] have "length (occupied m2) = nat w * nat h"
    by (simp only: occupied_length)
  from create_disposal_site_full [OF m(3) this] m(1,2) assms(1,2) show ?thesis
    by (simp add: GarbageCollectionModel_init_def)
qed

lemma init_room:
  assumes "0 < w" and "0 < h" and "nat nb + nat nt < nat w * nat h"
  shows "\<exists>m. GarbageCollectionModel_init w h nb nt rs = Inr m \<and> invariant m
    \<and> length (buildings m) = nat nb \<and> length (trucks m) = nat nt
    \<and> width m = w \<and> height m = h
    \<and> disposal_site m = Some \<lparr>d_pos = (0, 0), total_received = 0\<rparr>"
proof -
  from init_agents [OF assms(1,2), of nb nt rs] obtain m1 m2 where
    m: "create_buildings \<lparr>width = w, height = h, n_buildings = nb, n_trucks = nt, buildings = [],
                 trucks = [], disposal_site = None, rng_state = rs\<rparr> = Inr m1"
      "create_trucks m1 = Inr m2" "under_construction w h m2"
      "length (buildings m2) = min (nat nb) (nat w * nat h)"
      "length (trucks m2) = min (nat nt) (nat w * nat h - min (nat nb) (nat w * nat h))"
    by blast
  from fill_room [OF assms(3)] have a: "min (nat nb) (nat w * nat h) = nat nb"
    and b: "min (nat nt) (nat w * nat h - min (nat nb) (nat w * nat h)) = nat nt"
    by blast+
  from m(4) a have l1: "length (buildings m2) = nat nb" by (rule trans)
  from m(5) b have l2: "length (trucks m2) = nat nt" by (rule trans)
  note l = l1 l2
  with assms(3) have "length (occupied m2) < nat w * nat h"
    by (simp add: occupied_length)
  from create_disposal_site_room [OF m(3) this] m(1,2) assms(1,2) l show ?thesis
    by (auto simp: GarbageCollectionModel_init_def)
qed

lemma init_invariant:
  assumes "GarbageCollectionModel_init w h nb nt rs = Inr m"
  shows "invariant m"
proof -
  from assms init_dimension [of w h nb nt rs] have "\<not> (w \<le> 0 \<or> h \<le> 0)"
    by auto
  then have wh: "0 < w" "0 < h"
    by simp_all
  with assms init_full [of w h nb nt rs] have "nat nb + nat nt < nat w * nat h"
    by (cases "nat nb + nat nt < nat w * nat h") auto
  from init_room [OF wh this, of rs] assms show ?thesis by auto
qed

lemma reachable_invariant: "reachable m \<Longrightarrow> invariant m"
proof (induction rule: reachable.induct)
  case (constructed w h nb nt rs m)
  then show ?case by (rule init_invariant)
next
  case (ticked m m')
  with model_step_invariant [of m] show ?case by auto
qed

section \<open>Evaluating concrete runs\<close>

text \<open>Unfolding rules for running the program on explicit models inside the logic.\<close>

lemmas model_defs =
  GarbageCollectionModel_init_def create_buildings_def create_trucks_def create_building_def
  create_truck_def create_disposal_site_def grid_is_cell_empty_def find_empty_def
  move_to_empty_def place_def
  cell_contents_def empties_def all_cells_def is_cell_empty_def
  choice_def randbelow_def randint_def uniform_def py_random_def
  BuildingAgent_init_def TruckAgent_init_def

lemmas step_defs =
  model_step_def shuffle_def schedule_agents_def agent_step_def truck_step_def
  truck_substep_def patrol_def collect_def return_to_disposal_def harvest_def abandon_def
  unload_def receive_trash_def move_towards_def move_randomly_def try_move_def move_agent_def
  get_neighborhood_def out_of_bounds_def truck_in_cell_def
  buildings_needing_pickup_def is_targeted_def distance_to_def py_min_def
  building_step_def generate_def raise_request_def count_wait_def collect_trash_def
  choice_def randbelow_def

lemma repeat_numeral:
  "repeat (numeral k) body m =
     (case body m of Inl e \<Rightarrow> Inl e | Inr m' \<Rightarrow> repeat (pred_numeral k) body m')"
  by (simp add: numeral_eq_Suc)

lemma run_numeral:
  "run (numeral k) m = (case model_step m of Inl e \<Rightarrow> Inl e | Inr m' \<Rightarrow> run (pred_numeral k) m')"
  by (simp add: numeral_eq_Suc)

lemma truck_loop_numeral:
  "truck_loop (numeral k) i m =
     (case truck_substep i m of Inl e \<Rightarrow> Inl e | Inr m' \<Rightarrow> truck_loop (pred_numeral k) i m')"
  by (simp add: numeral_eq_Suc)

lemma shuffle_loop_numeral:
  "shuffle_loop (numeral k) xs rs =
     (case randbelow (numeral k + 1) rs of
        (j, rs') \<Rightarrow> shuffle_loop (pred_numeral k) (xs[numeral k := xs ! j, j := xs ! numeral k]) rs')"
  by (simp add: numeral_eq_Suc)

lemma upt_numeral: "[i ..< numeral k] = (if i < numeral k then i # [Suc i ..< numeral k] else [])"
  by (rule upt_rec)

lemma list_update_numeral: "(x # xs)[numeral k := y] = x # xs[pred_numeral k := y]"
  by (simp add: numeral_eq_Suc)

lemma offsets_eval:
  "offsets 1 = [0]" "offsets 2 = [- 1, 0]" "3 \<le> w \<Longrightarrow> offsets w = [- 1, 0, 1]"
proof -
  have u: "[- 1 .. 0 :: int] = [- 1, 0]" "[- 1 .. 1 :: int] = [- 1, 0, 1]" "[0 .. 0 :: int] = [0]"
    by (simp_all add: upto.simps)
  show "offsets 1 = [0]" "offsets 2 = [- 1, 0]"
    using u by (simp_all add: offsets_def)
  assume "3 \<le> w"
  then have "w div 2 \<noteq> 1 \<or> (w + 1) mod 2 \<noteq> 1" "1 \<le> w div 2"
    by presburger+
  with u show "offsets w = [- 1, 0, 1]"
    by (auto simp: offsets_def Let_def min_def)
qed

lemmas eval_loops = repeat_numeral run_numeral truck_loop_numeral shuffle_loop_numeral
  upt_numeral list_update_numeral offsets_eval












lemma lane_apart_constructed:
  "GarbageCollectionModel_init 2 2 1 2 lane_apart_seed = Inr (lane\<lparr>rng_state := drop 9 lane_apart_seed\<rparr>)"
  by (simp add: model_defs lane_apart_seed_def lane_def eval_loops)

lemma hamlet_constructed: "GarbageCollectionModel_init 2 2 1 0 hamlet_seed = Inr hamlet"
  by (simp add: model_defs hamlet_seed_def hamlet_def eval_loops)

lemma town_constructed: "GarbageCollectionModel_init 3 2 3 1 town_seed = Inr town"
  by (simp add: model_defs town_seed_def town_def eval_loops)

lemma lane_constructed: "GarbageCollectionModel_init 2 2 1 2 lane_seed = Inr lane"
  by (simp add: model_defs lane_seed_def lane_def eval_loops)

lemma hamlet_run: "run 7 hamlet = Inr hamlet7"
  by (simp add: step_defs hamlet_def hamlet7_def eval_loops Let_def)

lemma town_run16: "run 16 town = Inr town16"
  by (simp add: step_defs town_def town16_def eval_loops Let_def)

lemma town_run22: "run 22 town = Inr town22"
  by (simp add: step_defs town_def town22_def eval_loops Let_def)

lemma lane_run3: "run 3 lane = Inr lane3"
  by (simp add: step_defs lane_def lane3_def eval_loops Let_def)

lemma lane_step4: "model_step lane3 = Inr lane4"
  by (simp add: step_defs lane3_def lane4_def eval_loops Let_def)

lemma lane_apart_run4: "run 4 (lane\<lparr>rng_state := drop 9 lane_apart_seed\<rparr>) = Inr lane4_apart"
  by (simp add: step_defs lane_def lane_apart_seed_def lane4_apart_def eval_loops Let_def)

lemma lane_onsite_constructed:
  "GarbageCollectionModel_init 2 2 1 2 lane_onsite_seed
     = Inr (lane\<lparr>rng_state := drop 9 lane_onsite_seed\<rparr>)"
  by (simp add: model_defs lane_onsite_seed_def lane_def eval_loops)

lemma lane_onsite_run3: "run 3 (lane\<lparr>rng_state := drop 9 lane_onsite_seed\<rparr>) = Inr lane3_onsite"
  by (simp add: step_defs lane_def lane_onsite_seed_def lane3_onsite_def eval_loops Let_def)

lemma lane_onsite_step4: "model_step lane3_onsite = Inr lane4_emptied"
  by (simp add: step_defs lane3_onsite_def lane4_emptied_def eval_loops Let_def)


section \<open>Reachable models\<close>

lemma init_success:
  assumes "GarbageCollectionModel_init w h nb nt rs = Inr m"
  shows "0 < w \<and> 0 < h \<and> nat nb + nat nt < nat w * nat h \<and> invariant m
    \<and> length (buildings m) = nat nb \<and> length (trucks m) = nat nt
    \<and> width m = w \<and> height m = h
    \<and> disposal_site m = Some \<lparr>d_pos = (0, 0), total_received = 0\<rparr>"
proof -
  from assms init_dimension [of w h nb nt rs] have "\<not> (w \<le> 0 \<or> h \<le> 0)"
    by auto
  then have wh: "0 < w" "0 < h"
    by simp_all
  with assms init_full [of w h nb nt rs] have "nat nb + nat nt < nat w * nat h"
    by (cases "nat nb + nat nt < nat w * nat h") auto
  with init_room [OF wh this, of rs] assms wh show ?thesis by auto
qed



lemma run_reachable: "reachable m \<Longrightarrow> run k m = Inr m' \<Longrightarrow> reachable m'"
proof (induction k arbitrary: m)
  case 0
  then show ?case by simp
next
  case (Suc k)
  then show ?case
    by (auto split: sum.splits intro: reachable.ticked)
qed

lemma hamlet7_reachable: "reachable hamlet7"
  using run_reachable [OF reachable.constructed [OF hamlet_constructed] hamlet_run] .

lemma town16_reachable: "reachable town16"
  using run_reachable [OF reachable.constructed [OF town_constructed] town_run16] .

lemma town22_reachable: "reachable town22"
  using run_reachable [OF reachable.constructed [OF town_constructed] town_run22] .

lemma lane3_reachable: "reachable lane3"
  using run_reachable [OF reachable.constructed [OF lane_constructed] lane_run3] .

lemma lane4_reachable: "reachable lane4"
  using reachable.ticked [OF lane3_reachable lane_step4] .

lemma lane4_apart_reachable: "reachable lane4_apart"
  using run_reachable [OF reachable.constructed [OF lane_apart_constructed] lane_apart_run4] .

lemma lane3_onsite_reachable: "reachable lane3_onsite"
  using run_reachable [OF reachable.constructed [OF lane_onsite_constructed] lane_onsite_run3] .




section \<open>Invariants of every execution\<close>




text \<open>
  Claim C2, as stated: in every reachable model every building has
  \<open>0 \<le> fill \<le> capacity\<close>. It fails: the hamlet's building has capacity 8 and rate 5/4;
  its fill is 7.5 after six ticks, still below capacity, so the seventh tick adds the
  rate again and leaves 8.75.
\<close>

theorem fill_level_within_capacity_counterexample:
  "GarbageCollectionModel_init 2 2 1 0 hamlet_seed = Inr hamlet
   \<and> run 7 hamlet = Inr hamlet7
   \<and> b_capacity (buildings hamlet7 ! 0) = 8
   \<and> trash_level (buildings hamlet7 ! 0) = 35 / 4"
  using hamlet_constructed hamlet_run by (simp add: hamlet7_def)

text \<open>
  Claim C2, amended. In every reachable model every building has
  \<open>0 \<le> fill < capacity + rate\<close>. A step adds the rate whenever the fill is below the
  capacity, without clamping the sum, and adds nothing once the fill has reached the
  capacity.
\<close>

theorem fill_level_range:
  assumes "reachable m" and "b \<in> set (buildings m)"
  shows "0 \<le> trash_level b \<and> trash_level b < b_capacity b + trash_generation_rate b
    \<and> trash_level (building_step b)
        = (if trash_level b < b_capacity b then trash_level b + trash_generation_rate b
           else trash_level b)"
  using reachable_invariant [OF assms(1)] assms(2)
  by (auto simp: invariant_def list_all_iff building_ok_def building_defs)

theorem fill_level_range_witness:
  "reachable hamlet7 \<and> buildings hamlet7 ! 0 \<in> set (buildings hamlet7)
   \<and> 0 \<le> trash_level (buildings hamlet7 ! 0)
   \<and> trash_level (buildings hamlet7 ! 0)
        < b_capacity (buildings hamlet7 ! 0) + trash_generation_rate (buildings hamlet7 ! 0)
   \<and> trash_level (building_step (buildings hamlet7 ! 0)) = 35 / 4"
proof -
  have b: "buildings hamlet7 ! 0 \<in> set (buildings hamlet7)"
    by (simp add: hamlet7_def)
  from fill_level_range [OF hamlet7_reachable b] hamlet7_reachable b show ?thesis
    by (simp add: hamlet7_def)
qed

text \<open>
  Claim C5, as stated: in every reachable model every truck has
  \<open>0 \<le> load \<le> capacity\<close>. It fails: the town's truck has capacity 40; it harvests
  14.625, 16.25 and 16.25 and carries 47.125 after 16 ticks.
\<close>

theorem load_within_capacity_counterexample:
  "GarbageCollectionModel_init 3 2 3 1 town_seed = Inr town
   \<and> run 16 town = Inr town16
   \<and> t_capacity (trucks town16 ! 0) = 40
   \<and> current_load (trucks town16 ! 0) = 377 / 8"
  using town_constructed town_run16 by (simp add: town16_def)

text \<open>
  Claim C5, amended. In every reachable model every truck has \<open>0 \<le> load\<close>; the load is
  below the capacity whenever the truck is not returning to the disposal site; a harvest
  adds the whole fill of a building without looking at the capacity, so the load of a
  returning truck can exceed the capacity, by less than 17 (the largest capacity of a
  building plus the largest rate).
\<close>

theorem load_range:
  assumes "reachable m" and "t \<in> set (trucks m)"
  shows "0 \<le> current_load t \<and> current_load t < t_capacity t + 17
    \<and> (state t = Returning \<or> current_load t < t_capacity t)"
  using reachable_invariant [OF assms(1)] assms(2)
  by (auto simp: invariant_def list_all_iff truck_ok_def)

theorem load_range_witness:
  "reachable town16 \<and> trucks town16 ! 0 \<in> set (trucks town16)
   \<and> state (trucks town16 ! 0) = Returning
   \<and> current_load (trucks town16 ! 0) < t_capacity (trucks town16 ! 0) + 17
   \<and> reachable town22 \<and> trucks town22 ! 0 \<in> set (trucks town22)
   \<and> state (trucks town22 ! 0) \<noteq> Returning
   \<and> current_load (trucks town22 ! 0) < t_capacity (trucks town22 ! 0)"
proof -
  have a: "trucks town16 ! 0 \<in> set (trucks town16)" and b: "trucks town22 ! 0 \<in> set (trucks town22)"
    by (simp_all add: town16_def town22_def)
  from load_range [OF town16_reachable a] load_range [OF town22_reachable b]
    town16_reachable town22_reachable a b
  show ?thesis
    by (simp add: town16_def town22_def)
qed

section \<open>Construction and stepping: errors\<close>

lemma stable_True: "stable (\<lambda>m. True)"
  by (simp add: stable_def truck_stable_def)

lemma model_step_total: "\<exists>m'. model_step m = Inr m'"
  using model_step_preserves [OF stable_True, of m] by auto

lemma village_constructed: "GarbageCollectionModel_init 5 5 0 1 [] = Inr village"
  by (simp add: model_defs village_def eval_loops)

text \<open>
  Claim C3, as stated: construction raises for a building count that is not a positive
  integer. It does not: with a grid of 5 by 5, no building and one truck, construction
  returns a model with the truck and the disposal site.
\<close>

theorem construction_validates_counterexample:
  "GarbageCollectionModel_init 5 5 0 1 [] = Inr village
   \<and> buildings village = [] \<and> length (trucks village) = 1"
  using village_constructed by (simp add: village_def)

text \<open>
  Claim C3, amended. Construction checks none of its parameters and there is no
  \<^verbatim>\<open>ConfigurationError\<close>. It fails exactly when the width or the height is not positive
  (the grid has no cell, and the lookup of the corner cell for the disposal site raises
  \<^verbatim>\<open>IndexError\<close>) or the grid has fewer than \<open>n_buildings + n_trucks + 1\<close> cells, where a
  count below 1 counts as 0 (then no cell is left to clear the corner of the disposal
  site, and \<^verbatim>\<open>move_to_empty\<close> raises); otherwise it places every building and every truck.
  A tick never raises, whatever the model.
\<close>

theorem construction_outcome:
  "(case GarbageCollectionModel_init w h nb nt rs of
      Inl e \<Rightarrow>
        (w \<le> 0 \<or> h \<le> 0 \<or> nat w * nat h \<le> nat nb + nat nt)
        \<and> e = (if w \<le> 0 \<or> h \<le> 0 then IndexError else NoEmptyCells)
    | Inr m' \<Rightarrow>
        0 < w \<and> 0 < h \<and> nat nb + nat nt < nat w * nat h
        \<and> length (buildings m') = nat nb \<and> length (trucks m') = nat nt)
   \<and> (\<exists>m'. model_step m = Inr m')"
proof -
  have "case GarbageCollectionModel_init w h nb nt rs of
      Inl e \<Rightarrow>
        (w \<le> 0 \<or> h \<le> 0 \<or> nat w * nat h \<le> nat nb + nat nt)
        \<and> e = (if w \<le> 0 \<or> h \<le> 0 then IndexError else NoEmptyCells)
    | Inr m' \<Rightarrow>
        0 < w \<and> 0 < h \<and> nat nb + nat nt < nat w * nat h
        \<and> length (buildings m') = nat nb \<and> length (trucks m') = nat nt"
  proof (cases "GarbageCollectionModel_init w h nb nt rs")
    case (Inr m')
    with init_success [OF Inr] show ?thesis by simp
  next
    case (Inl e)
    show ?thesis
    proof (cases "w \<le> 0 \<or> h \<le> 0")
      case True
      with Inl init_dimension [OF True, of nb nt rs] show ?thesis by auto
    next
      case False
      then have wh: "0 < w" "0 < h" by simp_all
      show ?thesis
      proof (cases "nat w * nat h \<le> nat nb + nat nt")
        case True
        with Inl False init_full [OF wh True, of rs] show ?thesis by auto
      next
        case False
        then have "nat nb + nat nt < nat w * nat h" by simp
        from init_room [OF wh this, of rs] Inl show ?thesis by auto
      qed
    qed
  qed
  with model_step_total [of m] show ?thesis by blast
qed

theorem construction_outcome_witness:
  "GarbageCollectionModel_init 2 2 3 1 [] = Inl NoEmptyCells
   \<and> GarbageCollectionModel_init 0 5 1 1 [] = Inl IndexError
   \<and> (\<exists>m'. GarbageCollectionModel_init 5 5 0 1 [] = Inr m'
         \<and> buildings m' = [] \<and> length (trucks m') = 1)
   \<and> (\<exists>m'. model_step village = Inr m')"
  using construction_outcome [of 2 2 3 1 "[]" village]
    construction_outcome [of 0 5 1 1 "[]" village]
    construction_outcome [of 5 5 0 1 "[]" village]
  by (auto split: sum.splits)

section \<open>The order of activation\<close>

lemma schedule_agents_distinct: "distinct (schedule_agents m)"
  by (auto simp: schedule_agents_def distinct_map inj_on_def split: option.splits)

lemma lane3_order: "activation_order lane3 = [Disposal, Truck 0, Truck 1, Building 0]"
  by (simp add: activation_order_def step_defs lane3_def eval_loops)

lemma lane3_spec_advance: "targets_after (spec_advance lane3) = [Some 0, None]"
  by (simp add: targets_after_def spec_advance_def step_defs lane3_def eval_loops Let_def)

text \<open>
  Claim C6, as stated: a tick steps every building, then every truck, in the order of
  registration. It does not: after three ticks of the lane the scheduler's shuffle
  activates the disposal site, the two trucks and then the building. The building raises
  its request only after both trucks have looked for one, so no truck has a target after
  the tick; stepping the building first, as the claim has it, the first truck claims the
  building.
\<close>

theorem phase_order_counterexample:
  "GarbageCollectionModel_init 2 2 1 2 lane_seed = Inr lane
   \<and> run 3 lane = Inr lane3
   \<and> activation_order lane3 = [Disposal, Truck 0, Truck 1, Building 0]
   \<and> targets_after (model_step lane3) = [None, None]
   \<and> targets_after (spec_advance lane3) = [Some 0, None]"
  using lane_constructed lane_run3 lane3_order lane3_spec_advance lane_step4
  by (simp add: targets_after_def lane4_def)

text \<open>
  Claim C6, amended. A tick activates the registered agents (buildings, trucks and the
  disposal site) in the order the scheduler's shuffle of the registration order gives,
  drawn anew from the model's random source at every tick; the order is a permutation of
  the registered agents, so every agent is activated exactly once. The activation of a
  building is one step of it, that of a truck is \<open>speed\<close> passes of its loop.
\<close>

theorem activation_in_shuffled_order:
  "model_step m
     = step_agents (activation_order m)
         (m\<lparr>rng_state := snd (shuffle (schedule_agents m) (rng_state m))\<rparr>)
   \<and> mset (activation_order m) = mset (schedule_agents m)
   \<and> distinct (activation_order m)
   \<and> agent_step (Building j) m
       = Inr (m\<lparr>buildings := (buildings m)[j := building_step (buildings m ! j)]\<rparr>)
   \<and> agent_step (Truck i) m = truck_loop (nat (speed (trucks m ! i))) i m"
proof -
  have p: "mset (activation_order m) = mset (schedule_agents m)"
    by (simp add: activation_order_def shuffle_mset)
  then have "distinct (activation_order m)"
    using schedule_agents_distinct [of m] by (metis mset_eq_imp_distinct_iff)
  with p show ?thesis
    by (simp add: model_step_def activation_order_def agent_step_def truck_step_def
        split: prod.splits)
qed

lemma lane3_draws_left: "snd (shuffle (schedule_agents lane3) (rng_state lane3)) = [1, 0, 0, 0, 2, 1, 0]"
  by (simp add: step_defs lane3_def eval_loops)

theorem activation_in_shuffled_order_witness:
  "activation_order lane3 = [Disposal, Truck 0, Truck 1, Building 0]
   \<and> distinct (activation_order lane3)
   \<and> mset (activation_order lane3) = mset (schedule_agents lane3)
   \<and> model_step lane3
       = step_agents [Disposal, Truck 0, Truck 1, Building 0]
           (lane3\<lparr>rng_state := [1, 0, 0, 0, 2, 1, 0]\<rparr>)"
  using activation_in_shuffled_order [of lane3 0 0] lane3_order lane3_draws_left
  by simp

section \<open>Claims of trucks\<close>

lemma displaced_refl: "displaced i m m"
  by (simp add: displaced_def)

lemma displaced_move: "displaced i m (move_agent i p (m\<lparr>rng_state := rs\<rparr>))"
  unfolding displaced_def by blast

lemma displaced_move_same: "displaced i m (move_agent i p m)"
  using displaced_move [of i m p "rng_state m"] by simp

lemma move_randomly_moved: "\<exists>m'. move_randomly i m = Inr m' \<and> displaced i m m'"
proof -
  let ?valid = "filter (\<lambda>p. \<not> out_of_bounds m p \<and> \<not> truck_in_cell m p)
                       (get_neighborhood m (t_pos (trucks m ! i)))"
  show ?thesis
  proof (cases "?valid = []")
    case True
    then show ?thesis by (simp add: move_randomly_def displaced_refl)
  next
    case False
    from choice_nonempty [OF this, of "rng_state m"]
    obtain x rs' where "choice ?valid (rng_state m) = Inr (x, rs')" by blast
    with False show ?thesis
      by (simp add: move_randomly_def displaced_move)
  qed
qed

lemma try_move_moved: "try_move i p q m = (b, m') \<Longrightarrow> displaced i m m'"
  by (auto simp: try_move_def Let_def displaced_refl displaced_move_same split: if_splits)

lemma move_towards_moved: "\<exists>m'. move_towards i q m = Inr m' \<and> displaced i m m'"
  using move_randomly_moved [of i m]
  by (auto simp: move_towards_def Let_def split: prod.splits bool.splits dest: try_move_moved)

lemma building_step_keeps:
  "pickup_requested b \<Longrightarrow> pickup_requested (building_step b)"
  "b_pos (building_step b) = b_pos b"
  by (simp_all add: building_defs)

lemma unclaimed_building_step:
  assumes "unclaimed m"
  shows "unclaimed (m\<lparr>buildings := (buildings m)[0 := building_step (buildings m ! 0)]\<rparr>)"
  using assms
  by (simp add: unclaimed_def one_pending_def two_trucks_one_request_def building_step_keeps)

lemma deferred_building_step:
  assumes "unclaimed m" and "deferred k m"
  shows "deferred k (m\<lparr>buildings := (buildings m)[0 := building_step (buildings m ! 0)]\<rparr>)"
  using assms by (simp add: unclaimed_def one_pending_def deferred_def building_step_keeps)

lemma claimed_building_step:
  assumes "claimed_by k m"
  shows "claimed_by k (m\<lparr>buildings := (buildings m)[0 := building_step (buildings m ! 0)]\<rparr>)"
  using assms by (simp add: claimed_by_def one_pending_def building_step_keeps)

lemma claimed_displaced:
  assumes "claimed_by k m" and "displaced i m m'"
  shows "claimed_by k m'"
proof -
  have "claimed_by k (move_agent i p (m\<lparr>rng_state := rs\<rparr>))" for p rs
  proof -
    let ?t = "(trucks m ! i)\<lparr>t_pos := p, distance_traveled := distance_traveled (trucks m ! i) + 1\<rparr>"
    have n: "\<And>n. n < length (trucks m) \<Longrightarrow>
        target ((trucks m)[i := ?t] ! n) = target (trucks m ! n)
        \<and> state ((trucks m)[i := ?t] ! n) = state (trucks m ! n)"
    proof -
      fix n
      assume "n < length (trucks m)"
      then show "target ((trucks m)[i := ?t] ! n) = target (trucks m ! n)
        \<and> state ((trucks m)[i := ?t] ! n) = state (trucks m ! n)"
        by (cases "n = i") simp_all
    qed
    have "list_all (\<lambda>t. speed t = 1 \<or> speed t = 2) ((trucks m)[i := ?t])"
    proof (cases "i < length (trucks m)")
      case True
      with assms(1) have "speed (trucks m ! i) = 1 \<or> speed (trucks m ! i) = 2"
        by (simp add: claimed_by_def one_pending_def list_all_length)
      with assms(1) show ?thesis
        by (simp add: claimed_by_def one_pending_def list_all_update)
    next
      case False
      with assms(1) show ?thesis
        by (simp add: claimed_by_def one_pending_def list_update_beyond)
    qed
    with assms(1) n [of k] n [of "1 - k"] show ?thesis
      by (simp add: claimed_by_def one_pending_def move_agent_def)
  qed
  with assms show ?thesis
    by (auto simp: displaced_def)
qed

lemma patrol_claims:
  assumes "unclaimed m"
  shows "patrol k m = Inr (m\<lparr>trucks := (trucks m)[k := (trucks m ! k)\<lparr>target := Some 0,
                                                               state := Collecting\<rparr>]\<rparr>)"
proof -
  from assms have "\<not> is_targeted m 0"
    by (auto simp: unclaimed_def two_trucks_one_request_def is_targeted_def list_all_iff
        list_ex_iff)
  with assms have "buildings_needing_pickup m = [0]"
    by (simp add: unclaimed_def one_pending_def buildings_needing_pickup_def)
  then show ?thesis
    by (simp add: patrol_def py_min_def)
qed

lemma claim_claimed:
  assumes "unclaimed m" and "k < 2"
  shows "claimed_by k (m\<lparr>trucks := (trucks m)[k := (trucks m ! k)\<lparr>target := Some 0,
                                                               state := Collecting\<rparr>]\<rparr>)"
proof -
  from assms(2) have "1 - k \<noteq> k" "1 - k < 2"
    by arith+
  with assms have o: "1 - k < length (trucks m)" "1 - k \<noteq> k" and k: "k < length (trucks m)"
    by (simp_all add: unclaimed_def one_pending_def)
  from assms o have "target (trucks m ! (1 - k)) = None" "state (trucks m ! (1 - k)) = Patrolling"
    by (simp_all add: unclaimed_def two_trucks_one_request_def list_all_length)
  moreover from assms k have "speed (trucks m ! k) = 1 \<or> speed (trucks m ! k) = 2"
    by (simp add: unclaimed_def one_pending_def list_all_length)
  ultimately show ?thesis
    using assms o k
    by (simp add: claimed_by_def unclaimed_def one_pending_def list_all_update)
qed

lemma truck_step_claims:
  assumes "unclaimed m" and "k < 2" and "deferred k m"
  shows "\<exists>m'. truck_step k m = Inr m' \<and> claimed_by k m'"
proof -
  let ?m1 = "m\<lparr>trucks := (trucks m)[k := (trucks m ! k)\<lparr>target := Some 0,
                                                         state := Collecting\<rparr>]\<rparr>"
  from assms have k: "k < length (trucks m)"
    by (simp add: unclaimed_def one_pending_def)
  with assms have st: "state (trucks m ! k) = Patrolling"
    and sp: "speed (trucks m ! k) = 1 \<or> speed (trucks m ! k) = 2"
    and far: "speed (trucks m ! k) = 1 \<or> t_pos (trucks m ! k) \<noteq> b_pos (buildings m ! 0)"
    and req: "pickup_requested (buildings m ! 0)"
    by (simp_all add: unclaimed_def one_pending_def two_trucks_one_request_def
        deferred_def list_all_length)
  have s1: "truck_substep k m = Inr ?m1"
    using st patrol_claims [OF assms(1), of k] by (simp add: truck_substep_def)
  have c1: "claimed_by k ?m1"
    by (rule claim_claimed [OF assms(1,2)])
  show ?thesis
  proof (cases "speed (trucks m ! k) = 1")
    case True
    with s1 c1 show ?thesis
      by (simp add: truck_step_def)
  next
    case False
    with sp far have two: "speed (trucks m ! k) = 2"
      and apart: "t_pos (trucks m ! k) \<noteq> b_pos (buildings m ! 0)"
      by auto
    from move_towards_moved [of k "b_pos (buildings m ! 0)" ?m1] obtain m2 where
      m2: "move_towards k (b_pos (buildings m ! 0)) ?m1 = Inr m2" "displaced k ?m1 m2"
      by blast
    have "truck_substep k ?m1 = Inr m2"
      using k req apart m2(1) by (simp add: truck_substep_def collect_def)
    with s1 two claimed_displaced [OF c1 m2(2)] show ?thesis
      by (simp add: truck_step_def numeral_2_eq_2)
  qed
qed

lemma idle_truck_loop:
  assumes "q < 2" and "q \<noteq> k"
  shows "claimed_by k m \<Longrightarrow> \<exists>m'. truck_loop n q m = Inr m' \<and> claimed_by k m'"
proof (induction n arbitrary: m)
  case 0
  then show ?case by simp
next
  case (Suc n)
  from Suc.prems assms have q: "q = 1 - k" and k: "k < length (trucks m)"
    by (auto simp: claimed_by_def one_pending_def)
  with Suc.prems have "trucks m ! k \<in> set (trucks m)" "target (trucks m ! k) = Some 0"
    by (simp_all add: claimed_by_def)
  then have "is_targeted m 0"
    by (auto simp: is_targeted_def list_ex_iff)
  with Suc.prems have "buildings_needing_pickup m = []"
    by (simp add: claimed_by_def one_pending_def buildings_needing_pickup_def)
  moreover from Suc.prems q have "state (trucks m ! q) = Patrolling"
    by (simp add: claimed_by_def)
  ultimately have "truck_substep q m = move_randomly q m"
    by (simp add: truck_substep_def patrol_def)
  with move_randomly_moved [of q m] obtain m1 where
    m1: "truck_substep q m = Inr m1" "displaced q m m1" by auto
  from Suc.IH [OF claimed_displaced [OF Suc.prems m1(2)]] m1(1) show ?case
    by simp
qed

lemma tick_claims:
  assumes "distinct as" and "set as \<subseteq> {Building 0, Truck 0, Truck 1, Disposal}"
  shows "(unclaimed m \<and> (\<forall>k. first_truck as = Some k \<longrightarrow> deferred k m) \<longrightarrow>
            (\<exists>m'. step_agents as m = Inr m'
               \<and> (if \<exists>k. Truck k \<in> set as then \<exists>k. claimed_by k m' else unclaimed m')))
       \<and> (\<forall>k. claimed_by k m \<and> Truck k \<notin> set as \<longrightarrow>
            (\<exists>m'. step_agents as m = Inr m' \<and> claimed_by k m'))"
  using assms
proof (induction as arbitrary: m)
  case Nil
  then show ?case by simp
next
  case (Cons a as)
  then have IH: "\<And>m. (unclaimed m \<and> (\<forall>k. first_truck as = Some k \<longrightarrow> deferred k m) \<longrightarrow>
            (\<exists>m'. step_agents as m = Inr m'
               \<and> (if \<exists>k. Truck k \<in> set as then \<exists>k. claimed_by k m' else unclaimed m')))
       \<and> (\<forall>k. claimed_by k m \<and> Truck k \<notin> set as \<longrightarrow>
            (\<exists>m'. step_agents as m = Inr m' \<and> claimed_by k m'))"
    and a: "a \<in> {Building 0, Truck 0, Truck 1, Disposal}" and na: "a \<notin> set as"
    by simp_all
  show ?case
  proof (intro conjI impI allI)
    assume "unclaimed m \<and> (\<forall>k. first_truck (a # as) = Some k \<longrightarrow> deferred k m)"
    then have u: "unclaimed m" and f: "\<And>k. first_truck (a # as) = Some k \<Longrightarrow> deferred k m"
      by simp_all
    from a have "a = Building 0 \<or> a = Disposal \<or> (\<exists>k. a = Truck k \<and> k < 2)"
      by auto
    then consider "a = Building 0" | "a = Disposal" | k where "a = Truck k" "k < 2"
      by blast
    then show "\<exists>m'. step_agents (a # as) m = Inr m'
       \<and> (if \<exists>k. Truck k \<in> set (a # as) then \<exists>k. claimed_by k m' else unclaimed m')"
    proof cases
      case 1
      let ?m1 = "m\<lparr>buildings := (buildings m)[0 := building_step (buildings m ! 0)]\<rparr>"
      from 1 f have "\<And>k. first_truck as = Some k \<Longrightarrow> deferred k ?m1"
        by (simp add: deferred_building_step [OF u])
      with 1 IH [of ?m1] unclaimed_building_step [OF u]
      show ?thesis by (simp add: agent_step_def)
    next
      case 2
      with f have "\<And>k. first_truck as = Some k \<Longrightarrow> deferred k m"
        by simp
      with 2 IH [of m] u show ?thesis by (simp add: agent_step_def)
    next
      case 3
      with f have "deferred k m" by simp
      from truck_step_claims [OF u 3(2) this] obtain m1 where
        m1: "truck_step k m = Inr m1" "claimed_by k m1" by blast
      with IH [of m1] na 3(1) obtain m' where "step_agents as m1 = Inr m'" "claimed_by k m'"
        by blast
      with m1(1) 3(1) show ?thesis by (auto simp: agent_step_def)
    qed
  next
    fix k
    assume c: "claimed_by k m \<and> Truck k \<notin> set (a # as)"
    then have ck: "claimed_by k m" and nk: "Truck k \<notin> set as" "a \<noteq> Truck k"
      by auto
    from a nk(2) have "a = Building 0 \<or> a = Disposal \<or> (\<exists>q. a = Truck q \<and> q < 2 \<and> q \<noteq> k)"
      by auto
    then consider "a = Building 0" | "a = Disposal" | q where "a = Truck q" "q < 2" "q \<noteq> k"
      by blast
    then show "\<exists>m'. step_agents (a # as) m = Inr m' \<and> claimed_by k m'"
    proof cases
      case 1
      with IH [of "m\<lparr>buildings := (buildings m)[0 := building_step (buildings m ! 0)]\<rparr>"]
        claimed_building_step [OF ck] nk(1)
      show ?thesis by (simp add: agent_step_def)
    next
      case 2
      with IH [of m] ck nk(1) show ?thesis by (simp add: agent_step_def)
    next
      case 3
      from idle_truck_loop [OF 3(2,3) ck] obtain m1 where
        m1: "truck_step q m = Inr m1" "claimed_by k m1"
        unfolding truck_step_def by blast
      with IH [of m1] nk(1) obtain m' where "step_agents as m1 = Inr m'" "claimed_by k m'"
        by blast
      with m1(1) 3(1) show ?thesis by (auto simp: agent_step_def)
    qed
  qed
qed

lemma claimed_one_target:
  assumes "claimed_by k m"
  shows "length (filter (\<lambda>t. target t = Some 0) (trucks m)) = 1"
proof -
  from assms have "length (trucks m) = 2"
    by (simp add: claimed_by_def one_pending_def)
  then obtain t0 t1 where ts: "trucks m = [t0, t1]"
    by (cases "trucks m"; cases "tl (trucks m)") auto
  from assms have "k = 0 \<or> k = 1"
    by (auto simp: claimed_by_def)
  with assms ts show ?thesis
    by (auto simp: claimed_by_def)
qed

lemma scenario_tick:
  assumes "reachable m" and "two_trucks_one_request m" and "harvest_deferred m"
  shows "\<exists>m'. model_step m = Inr m' \<and> length (filter (\<lambda>t. target t = Some 0) (trucks m')) = 1"
proof -
  obtain order rs where sh: "shuffle (schedule_agents m) (rng_state m) = (order, rs)"
    by (cases "shuffle (schedule_agents m) (rng_state m)")
  then have q: "order = activation_order m"
    by (simp add: activation_order_def)
  from reachable_invariant [OF assms(1)] assms(2) have "one_pending m"
    by (auto simp: invariant_def one_pending_def two_trucks_one_request_def truck_ok_def
        list_all_iff)
  with assms have "unclaimed m"
    by (simp add: unclaimed_def)
  then have u: "unclaimed (m\<lparr>rng_state := rs\<rparr>)"
    by (simp add: unclaimed_def one_pending_def two_trucks_one_request_def)
  from assms(3) q have f: "\<forall>k. first_truck order = Some k \<longrightarrow> deferred k (m\<lparr>rng_state := rs\<rparr>)"
    by (auto simp: harvest_deferred_def deferred_def)
  from assms(2) have sched: "set (schedule_agents m) \<subseteq> {Building 0, Truck 0, Truck 1, Disposal}"
    "Truck 0 \<in> set (schedule_agents m)"
    by (auto simp: schedule_agents_def two_trucks_one_request_def numeral_2_eq_2
        split: option.splits)
  have d: "distinct order"
    using q schedule_agents_distinct [of m] shuffle_mset [of "schedule_agents m" "rng_state m"]
    by (metis activation_order_def mset_eq_imp_distinct_iff)
  have s: "set order = set (schedule_agents m)"
    using q by (simp add: activation_order_set)
  with sched have "\<exists>k. Truck k \<in> set order" "set order \<subseteq> {Building 0, Truck 0, Truck 1, Disposal}"
    by auto
  with tick_claims [OF d, of "m\<lparr>rng_state := rs\<rparr>"] u f obtain m' k where
    "step_agents order (m\<lparr>rng_state := rs\<rparr>) = Inr m'" "claimed_by k m'"
    by auto
  with sh claimed_one_target [of k m'] show ?thesis
    by (simp add: model_step_def)
qed

lemma lane4_scenario: "two_trucks_one_request lane4"
  by (simp add: two_trucks_one_request_def lane4_def)

lemma lane4_tick: "targets_after (model_step lane4) = [None, None]"
  by (simp add: targets_after_def step_defs lane4_def eval_loops Let_def)

lemma lane4_apart_tick: "targets_after (model_step lane4_apart) = [Some 0, None]"
  by (simp add: targets_after_def step_defs lane4_apart_def eval_loops Let_def)

text \<open>
  Claim C4, as stated: with two trucks and one building that requests pickup, exactly one
  truck has the building as its target after one tick. It fails: after four ticks of the
  lane both trucks patrol without a target, the building requests pickup, and the first
  truck, of speed 2, stands on the building's cell. In the fifth tick that truck claims
  the building in its first pass and harvests it in its second, which clears its target;
  the other truck then finds no request. No truck has a target after the tick.
\<close>

theorem one_claim_after_tick_counterexample:
  "GarbageCollectionModel_init 2 2 1 2 lane_seed = Inr lane
   \<and> run 3 lane = Inr lane3 \<and> model_step lane3 = Inr lane4
   \<and> two_trucks_one_request lane4
   \<and> targets_after (model_step lane4) = [None, None]"
  using lane_constructed lane_run3 lane_step4 lane4_scenario lane4_tick by simp

text \<open>
  Claim C4, amended. After every tick no building is the target of two trucks. With one
  building, which requests pickup, and two patrolling trucks without a target, exactly
  one truck has the building as its target after one tick, unless the truck that the tick
  activates first has speed 2 and stands on the building's cell (such a truck claims the
  building and harvests it within the same tick).
\<close>

theorem claim_exclusivity:
  assumes "reachable m"
  shows "exclusive (trucks m)
    \<and> (two_trucks_one_request m \<and> harvest_deferred m \<longrightarrow>
         (\<exists>m'. model_step m = Inr m'
            \<and> length (filter (\<lambda>t. target t = Some 0) (trucks m')) = 1))"
  using reachable_invariant [OF assms] scenario_tick [OF assms]
  by (simp add: invariant_def)

theorem claim_exclusivity_witness:
  "reachable lane4_apart \<and> two_trucks_one_request lane4_apart \<and> harvest_deferred lane4_apart
   \<and> exclusive (trucks lane4_apart)
   \<and> (\<exists>m'. model_step lane4_apart = Inr m'
         \<and> length (filter (\<lambda>t. target t = Some 0) (trucks m')) = 1)
   \<and> targets_after (model_step lane4_apart) = [Some 0, None]"
proof -
  have "activation_order lane4_apart = [Truck 0, Truck 1, Disposal, Building 0]"
    by (simp add: activation_order_def step_defs lane4_apart_def eval_loops)
  then have s: "two_trucks_one_request lane4_apart" "harvest_deferred lane4_apart"
    by (simp_all add: two_trucks_one_request_def harvest_deferred_def deferred_def
        lane4_apart_def)
  from claim_exclusivity [OF lane4_apart_reachable] s lane4_apart_reachable lane4_apart_tick
  show ?thesis by simp
qed

section \<open>The request latch\<close>

lemma building_step_rise:
  assumes "building_ok b" and "\<not> pickup_requested b" and "pickup_requested (building_step b)"
  shows "trash_level b < b_capacity b * (4 / 5)
    \<and> b_capacity (building_step b) * (4 / 5) \<le> trash_level (building_step b)"
  using assms by (auto simp: building_ok_def building_defs split: if_splits)

lemma only_harvested_refl: "only_harvested m m"
  by (simp add: only_harvested_def)

lemma only_harvested_trans:
  assumes "only_harvested m0 m1" and "only_harvested m1 m2"
  shows "only_harvested m0 m2"
  unfolding only_harvested_def
proof (intro conjI allI impI)
  from assms show "length (buildings m2) = length (buildings m0)"
    by (simp add: only_harvested_def)
next
  fix j
  assume j: "j < length (buildings m0)"
  with assms have
    a: "buildings m1 ! j = buildings m0 ! j
        \<or> (pickup_requested (buildings m0 ! j)
           \<and> buildings m1 ! j = snd (collect_trash (buildings m0 ! j)))"
    and b: "buildings m2 ! j = buildings m1 ! j
        \<or> (pickup_requested (buildings m1 ! j)
           \<and> buildings m2 ! j = snd (collect_trash (buildings m1 ! j)))"
    by (simp_all add: only_harvested_def)
  then show "buildings m2 ! j = buildings m0 ! j
        \<or> (pickup_requested (buildings m0 ! j)
           \<and> buildings m2 ! j = snd (collect_trash (buildings m0 ! j)))"
    by (auto simp: collect_trash_def)
qed

lemma truck_op_only_harvested:
  assumes "truck_op i m m'"
  shows "only_harvested m m'"
  using assms
proof (cases rule: truck_op.cases)
  case (harvests j)
  then have b: "buildings m' = (buildings m)[j := snd (collect_trash (buildings m ! j))]"
    by (simp add: harvest_def Let_def split: prod.splits)
  have "buildings m' ! n = buildings m ! n
        \<or> (pickup_requested (buildings m ! n)
           \<and> buildings m' ! n = snd (collect_trash (buildings m ! n)))"
    if "n < length (buildings m)" for n
    using that b harvests(4) by (cases "n = j") simp_all
  with b show ?thesis
    by (simp add: only_harvested_def)
qed (simp_all add: only_harvested_def move_agent_def abandon_def unload_def Let_def)

lemma truck_step_only_harvested:
  assumes "truck_step i m = Inr m'" and "i < length (trucks m)"
  shows "only_harvested m m'"
proof -
  have "truck_stable (only_harvested m)"
    unfolding truck_stable_def
    using only_harvested_trans truck_op_only_harvested by blast
  from truck_loop_preserves [OF this only_harvested_refl assms(2), of "nat (speed (trucks m ! i))"]
    assms(1)
  show ?thesis
    by (auto simp: truck_step_def)
qed

text \<open>
  Claim C8. Take any activation of an agent in any tick of any execution: the model is
  reachable, the tick's order of activation is \<open>before @ a # after\<close>, the agents of
  \<open>before\<close> have been stepped, giving \<open>m1\<close>, and the activation of \<open>a\<close> gives \<open>m2\<close>.
  If the request flag of a building goes from false to true, the agent is that building
  and its fill was below 80% of its capacity before the step and is at least that
  afterwards. If the flag goes from true to false, the agent is a truck and the building
  is what \<^verbatim>\<open>collect_trash\<close> leaves of it. Nothing else changes the flag.
\<close>

theorem latch_correctness:
  assumes "reachable m"
    and "activation_order m = before @ a # after"
    and "step_agents before
           (m\<lparr>rng_state := snd (shuffle (schedule_agents m) (rng_state m))\<rparr>) = Inr m1"
    and "agent_step a m1 = Inr m2"
    and "j < length (buildings m1)"
  shows "(\<not> pickup_requested (buildings m1 ! j) \<and> pickup_requested (buildings m2 ! j) \<longrightarrow>
            a = Building j
            \<and> trash_level (buildings m1 ! j) < b_capacity (buildings m1 ! j) * (4 / 5)
            \<and> b_capacity (buildings m2 ! j) * (4 / 5) \<le> trash_level (buildings m2 ! j))
       \<and> (pickup_requested (buildings m1 ! j) \<and> \<not> pickup_requested (buildings m2 ! j) \<longrightarrow>
            (\<exists>i. a = Truck i)
            \<and> buildings m2 ! j = snd (collect_trash (buildings m1 ! j)))"
proof -
  let ?m0 = "m\<lparr>rng_state := snd (shuffle (schedule_agents m) (rng_state m))\<rparr>"
  have inv0: "invariant ?m0"
    using reachable_invariant [OF assms(1)] by (rule invariant_rng)
  have sched0: "schedule_agents ?m0 = schedule_agents m"
    by (simp add: schedule_agents_def)
  from assms(2) have sub: "set before \<subseteq> set (schedule_agents ?m0)"
    and a0: "a \<in> set (schedule_agents ?m0)"
    using activation_order_set [of m] sched0 by auto
  from step_agents_preserves [OF stable_invariant inv0 sub] assms(3)
  have inv1: "invariant m1" and sched1: "schedule_agents m1 = schedule_agents ?m0"
    by auto
  with a0 have a1: "a \<in> set (schedule_agents m1)" by simp
  from inv1 assms(5) have ok: "building_ok (buildings m1 ! j)"
    by (simp add: invariant_def list_all_length)
  show ?thesis
  proof (cases a)
    case (Building k)
    with assms(4) have m2: "buildings m2 = (buildings m1)[k := building_step (buildings m1 ! k)]"
      by (auto simp: agent_step_def)
    show ?thesis
    proof (cases "k = j")
      case True
      with m2 assms(5) have "buildings m2 ! j = building_step (buildings m1 ! j)"
        by simp
      with Building True building_step_rise [OF ok] building_step_keeps(1) [of "buildings m1 ! j"]
      show ?thesis by auto
    next
      case False
      with m2 show ?thesis by simp
    qed
  next
    case (Truck i)
    with a1 have "i < length (trucks m1)"
      by (auto simp: schedule_agents_def split: option.splits)
    with Truck assms(4) have "only_harvested m1 m2"
      by (intro truck_step_only_harvested) (simp_all add: agent_step_def)
    with assms(5) have "buildings m2 ! j = buildings m1 ! j
        \<or> (pickup_requested (buildings m1 ! j)
           \<and> buildings m2 ! j = snd (collect_trash (buildings m1 ! j)))"
      by (simp add: only_harvested_def)
    with Truck show ?thesis by auto
  next
    case Disposal
    with assms(4) show ?thesis by (simp add: agent_step_def)
  qed
qed

lemma lane3_trucks_first:
  "step_agents [Disposal, Truck 0, Truck 1]
     (lane3\<lparr>rng_state := snd (shuffle (schedule_agents lane3) (rng_state lane3))\<rparr>)
   = Inr (lane4\<lparr>buildings := buildings lane3\<rparr>)"
  by (simp add: step_defs lane3_def lane4_def eval_loops Let_def)

lemma lane3_building_last:
  "agent_step (Building 0) (lane4\<lparr>buildings := buildings lane3\<rparr>) = Inr lane4"
  by (simp add: step_defs lane3_def lane4_def eval_loops Let_def)

lemma lane4_order: "activation_order lane4 = [Disposal, Truck 0, Truck 1, Building 0]"
  by (simp add: activation_order_def step_defs lane4_def eval_loops)

lemma lane4_disposal_first:
  "step_agents [Disposal]
     (lane4\<lparr>rng_state := snd (shuffle (schedule_agents lane4) (rng_state lane4))\<rparr>)
   = Inr (lane4\<lparr>rng_state := [0]\<rparr>)"
  by (simp add: step_defs lane4_def eval_loops Let_def)

lemma lane4_truck_harvests:
  "agent_step (Truck 0) (lane4\<lparr>rng_state := [0]\<rparr>) = Inr lane4_harvested"
  by (simp add: step_defs lane4_def lane4_harvested_def eval_loops Let_def)

theorem latch_correctness_witness:
  "reachable lane3
   \<and> activation_order lane3 = [Disposal, Truck 0, Truck 1] @ Building 0 # []
   \<and> agent_step (Building 0) (lane4\<lparr>buildings := buildings lane3\<rparr>) = Inr lane4
   \<and> \<not> pickup_requested (buildings lane3 ! 0) \<and> pickup_requested (buildings lane4 ! 0)
   \<and> trash_level (buildings lane3 ! 0) < b_capacity (buildings lane3 ! 0) * (4 / 5)
   \<and> b_capacity (buildings lane4 ! 0) * (4 / 5) \<le> trash_level (buildings lane4 ! 0)
   \<and> reachable lane4
   \<and> activation_order lane4 = [Disposal] @ Truck 0 # [Truck 1, Building 0]
   \<and> agent_step (Truck 0) (lane4\<lparr>rng_state := [0]\<rparr>) = Inr lane4_harvested
   \<and> pickup_requested (buildings lane4 ! 0) \<and> \<not> pickup_requested (buildings lane4_harvested ! 0)
   \<and> buildings lane4_harvested ! 0 = snd (collect_trash (buildings lane4 ! 0))"
proof -
  have o3: "activation_order lane3 = [Disposal, Truck 0, Truck 1] @ Building 0 # []"
    using lane3_order by simp
  have o4: "activation_order lane4 = [Disposal] @ Truck 0 # [Truck 1, Building 0]"
    using lane4_order by simp
  have j3: "0 < length (buildings (lane4\<lparr>buildings := buildings lane3\<rparr>))"
    by (simp add: lane3_def)
  have j4: "0 < length (buildings (lane4\<lparr>rng_state := [0]\<rparr>))"
    by (simp add: lane4_def)
  have flags: "\<not> pickup_requested (buildings lane3 ! 0)" "pickup_requested (buildings lane4 ! 0)"
    "\<not> pickup_requested (buildings lane4_harvested ! 0)"
    by (simp_all add: lane3_def lane4_def lane4_harvested_def)
  from latch_correctness [OF lane3_reachable o3 lane3_trucks_first lane3_building_last j3]
    latch_correctness [OF lane4_reachable o4 lane4_disposal_first lane4_truck_harvests j4]
    flags lane3_reachable lane4_reachable o3 o4 lane3_building_last lane4_truck_harvests
  show ?thesis by simp
qed

section \<open>A building through one tick\<close>

lemma building_step_wait_one:
  assumes "\<not> pickup_requested b" and "pickup_requested (building_step b)"
  shows "pickup_wait_time (building_step b) = 1"
  using assms by (simp add: building_defs split: if_splits)

lemma agent_step_building:
  assumes "agent_step a m = Inr m1" and "a \<in> set (schedule_agents m)"
    and "j < length (buildings m)"
  shows "schedule_agents m1 = schedule_agents m \<and> length (buildings m1) = length (buildings m)
    \<and> (if a = Building j then buildings m1 ! j = building_step (buildings m ! j)
        else buildings m1 ! j = buildings m ! j
           \<or> (pickup_requested (buildings m ! j)
              \<and> buildings m1 ! j = snd (collect_trash (buildings m ! j))))"
proof (cases a)
  case (Building k)
  with assms show ?thesis
    by (auto simp: agent_step_def schedule_agents_def)
next
  case (Truck i)
  with assms(2) have i: "i < length (trucks m)"
    by (auto simp: schedule_agents_def split: option.splits)
  with Truck assms(1) have h: "only_harvested m m1"
    by (intro truck_step_only_harvested) (simp_all add: agent_step_def)
  from agent_step_preserves [OF stable_True _ assms(2)] assms(1)
  have "schedule_agents m1 = schedule_agents m" by auto
  with h assms(3) Truck show ?thesis
    by (simp add: only_harvested_def)
next
  case Disposal
  with assms show ?thesis by (simp add: agent_step_def)
qed

lemma tick_tracks_building:
  assumes "\<not> pickup_requested b"
  shows "distinct as \<Longrightarrow> set as \<subseteq> set (schedule_agents m) \<Longrightarrow> j < length (buildings m) \<Longrightarrow>
    step_agents as m = Inr m' \<Longrightarrow>
    (buildings m ! j = b \<longrightarrow>
       (if Building j \<in> set as
        then buildings m' ! j = building_step b
           \<or> buildings m' ! j = snd (collect_trash (building_step b))
        else buildings m' ! j = b))
    \<and> (Building j \<notin> set as
        \<and> (buildings m ! j = building_step b
           \<or> buildings m ! j = snd (collect_trash (building_step b))) \<longrightarrow>
       buildings m' ! j = building_step b
       \<or> buildings m' ! j = snd (collect_trash (building_step b)))"
proof (induction as arbitrary: m)
  case Nil
  then show ?case by simp
next
  case (Cons a as)
  from Cons.prems(4) obtain m1 where m1: "agent_step a m = Inr m1" "step_agents as m1 = Inr m'"
    by (auto split: sum.splits)
  from Cons.prems(2) have a: "a \<in> set (schedule_agents m)" by simp
  from agent_step_building [OF m1(1) a Cons.prems(3)]
  have s: "schedule_agents m1 = schedule_agents m" and l: "length (buildings m1) = length (buildings m)"
    and e: "if a = Building j then buildings m1 ! j = building_step (buildings m ! j)
        else buildings m1 ! j = buildings m ! j
           \<or> (pickup_requested (buildings m ! j)
              \<and> buildings m1 ! j = snd (collect_trash (buildings m ! j)))"
    by simp_all
  from Cons.prems s l have "distinct as" "set as \<subseteq> set (schedule_agents m1)"
    "j < length (buildings m1)"
    by simp_all
  from Cons.IH [OF this m1(2)]
  have IH1: "buildings m1 ! j = b \<Longrightarrow> Building j \<notin> set as \<Longrightarrow> buildings m' ! j = b"
    and IH1': "buildings m1 ! j = b \<Longrightarrow> Building j \<in> set as \<Longrightarrow>
        buildings m' ! j = building_step b
        \<or> buildings m' ! j = snd (collect_trash (building_step b))"
    and IH2: "Building j \<notin> set as \<Longrightarrow>
        buildings m1 ! j = building_step b
        \<or> buildings m1 ! j = snd (collect_trash (building_step b)) \<Longrightarrow>
        buildings m' ! j = building_step b
        \<or> buildings m' ! j = snd (collect_trash (building_step b))"
    by (simp_all split: if_splits)
  have nr: "\<not> pickup_requested (snd (collect_trash x))" for x
    by (simp add: collect_trash_def)
  show ?case
  proof (intro conjI impI)
    assume b: "buildings m ! j = b"
    show "if Building j \<in> set (a # as)
        then buildings m' ! j = building_step b
           \<or> buildings m' ! j = snd (collect_trash (building_step b))
        else buildings m' ! j = b"
    proof (cases "a = Building j")
      case True
      with Cons.prems(1) have "Building j \<notin> set as" by auto
      with True e b IH2 show ?thesis by simp
    next
      case False
      with e b assms have "buildings m1 ! j = b" by auto
      with False IH1 IH1' show ?thesis by auto
    qed
  next
    assume "Building j \<notin> set (a # as)
      \<and> (buildings m ! j = building_step b
         \<or> buildings m ! j = snd (collect_trash (building_step b)))"
    then have na: "a \<noteq> Building j" "Building j \<notin> set as"
      and c: "buildings m ! j = building_step b
        \<or> buildings m ! j = snd (collect_trash (building_step b))"
      by auto
    from na(1) e c nr [of "building_step b"]
    have "buildings m1 ! j = building_step b
        \<or> buildings m1 ! j = snd (collect_trash (building_step b))"
      by auto
    with IH2 na(2) show "buildings m' ! j = building_step b
        \<or> buildings m' ! j = snd (collect_trash (building_step b))"
      by simp
  qed
qed

lemma lane3_onsite_order:
  "activation_order lane3_onsite = [Building 0, Truck 0, Truck 1, Disposal]"
  by (simp add: activation_order_def step_defs lane3_onsite_def eval_loops)

lemma lane3_onsite_raises:
  "\<not> pickup_requested (buildings lane3_onsite ! 0)
   \<and> pickup_requested (building_step (buildings lane3_onsite ! 0))
   \<and> pickup_wait_time (building_step (buildings lane3_onsite ! 0)) = 1"
  by (simp add: lane3_onsite_def building_defs)

text \<open>
  Claim C10, as stated: at the end of the tick in which a building's pickup request is
  raised, its wait counter is 1. Not in every such tick. In the reachable model
  \<open>lane3_onsite\<close> the building does not request pickup and the truck of speed 2 stands on
  its cell. The next tick activates the building first: its step raises the request and
  leaves the counter at 1. The truck comes next, claims the building in its first pass and
  harvests it in its second, and \<^verbatim>\<open>collect_trash\<close> resets the counter: at the end of the
  tick it is 0.
\<close>

theorem wait_time_one_counterexample:
  "reachable lane3_onsite \<and> model_step lane3_onsite = Inr lane4_emptied
   \<and> activation_order lane3_onsite = [Building 0, Truck 0, Truck 1, Disposal]
   \<and> \<not> pickup_requested (buildings lane3_onsite ! 0)
   \<and> pickup_requested (building_step (buildings lane3_onsite ! 0))
   \<and> pickup_wait_time (building_step (buildings lane3_onsite ! 0)) = 1
   \<and> buildings lane4_emptied ! 0 = snd (collect_trash (building_step (buildings lane3_onsite ! 0)))
   \<and> pickup_wait_time (buildings lane4_emptied ! 0) = 0"
proof -
  have "buildings lane4_emptied ! 0
      = snd (collect_trash (building_step (buildings lane3_onsite ! 0)))"
    "pickup_wait_time (buildings lane4_emptied ! 0) = 0"
    by (simp_all add: lane3_onsite_def lane4_emptied_def building_defs)
  with lane3_onsite_reachable lane_onsite_step4 lane3_onsite_order lane3_onsite_raises
  show ?thesis by simp
qed

text \<open>
  Claim C10, amended. In the tick in which a building's pickup request is raised (the
  flag is false before the tick and the building's step sets it), that step resets the
  wait counter to 0 and increments it right after, so the counter is 1 at the end of the
  building's step. At the end of the tick the building is either what its step made of
  it, with the counter at 1, or, when a truck harvested it later in the same tick, what
  \<^verbatim>\<open>collect_trash\<close> left of that, with the flag false and the counter at 0.
\<close>

theorem wait_time_on_raising_tick:
  assumes "model_step m = Inr m'" and "j < length (buildings m)"
    and "\<not> pickup_requested (buildings m ! j)"
    and "pickup_requested (building_step (buildings m ! j))"
  shows "pickup_wait_time (building_step (buildings m ! j)) = 1
    \<and> (buildings m' ! j = building_step (buildings m ! j)
       \<or> buildings m' ! j = snd (collect_trash (building_step (buildings m ! j))))
    \<and> pickup_wait_time (buildings m' ! j) = (if pickup_requested (buildings m' ! j) then 1 else 0)"
proof -
  obtain order rs where sh: "shuffle (schedule_agents m) (rng_state m) = (order, rs)"
    by (cases "shuffle (schedule_agents m) (rng_state m)")
  then have o: "order = activation_order m"
    by (simp add: activation_order_def)
  let ?m0 = "m\<lparr>rng_state := rs\<rparr>"
  let ?b1 = "building_step (buildings m ! j)"
  have d: "distinct order"
    using o schedule_agents_distinct [of m] shuffle_mset [of "schedule_agents m" "rng_state m"]
    by (metis activation_order_def mset_eq_imp_distinct_iff)
  have s: "set order \<subseteq> set (schedule_agents ?m0)"
    using o activation_order_set [of m] by (simp add: schedule_agents_def)
  have j: "j < length (buildings ?m0)" "buildings ?m0 ! j = buildings m ! j"
    using assms(2) by simp_all
  from assms(2) have "Building j \<in> set order"
    using o activation_order_set [of m] by (simp add: schedule_agents_def)
  moreover from assms(1) sh have "step_agents order ?m0 = Inr m'"
    by (simp add: model_step_def)
  ultimately have e: "buildings m' ! j = ?b1 \<or> buildings m' ! j = snd (collect_trash ?b1)"
    using tick_tracks_building [OF assms(3) d s j(1)] j(2) by simp
  have w: "pickup_wait_time ?b1 = 1"
    using assms(3,4) by (rule building_step_wait_one)
  have c: "\<not> pickup_requested (snd (collect_trash ?b1))"
    "pickup_wait_time (snd (collect_trash ?b1)) = 0"
    by (simp_all add: collect_trash_def)
  from e show ?thesis
  proof
    assume "buildings m' ! j = ?b1"
    with w assms(4) show ?thesis by simp
  next
    assume "buildings m' ! j = snd (collect_trash ?b1)"
    with w c show ?thesis by simp
  qed
qed

theorem wait_time_on_raising_tick_witness:
  "model_step lane3 = Inr lane4 \<and> 0 < length (buildings lane3)
   \<and> \<not> pickup_requested (buildings lane3 ! 0)
   \<and> pickup_requested (building_step (buildings lane3 ! 0))
   \<and> pickup_requested (buildings lane4 ! 0)
   \<and> buildings lane4 ! 0 = building_step (buildings lane3 ! 0)
   \<and> pickup_wait_time (buildings lane4 ! 0) = 1
   \<and> model_step lane3_onsite = Inr lane4_emptied \<and> 0 < length (buildings lane3_onsite)
   \<and> \<not> pickup_requested (buildings lane3_onsite ! 0)
   \<and> pickup_requested (building_step (buildings lane3_onsite ! 0))
   \<and> \<not> pickup_requested (buildings lane4_emptied ! 0)
   \<and> pickup_wait_time (buildings lane4_emptied ! 0) = 0"
proof -
  have h: "0 < length (buildings lane3)" "\<not> pickup_requested (buildings lane3 ! 0)"
    "pickup_requested (building_step (buildings lane3 ! 0))"
    by (simp_all add: lane3_def building_defs)
  have f: "pickup_requested (buildings lane4 ! 0)"
    "buildings lane4 ! 0 = building_step (buildings lane3 ! 0)"
    by (simp_all add: lane3_def lane4_def building_defs)
  have h': "0 < length (buildings lane3_onsite)" "\<not> pickup_requested (buildings lane3_onsite ! 0)"
    "pickup_requested (building_step (buildings lane3_onsite ! 0))"
    by (simp_all add: lane3_onsite_def building_defs)
  have f': "\<not> pickup_requested (buildings lane4_emptied ! 0)"
    by (simp add: lane4_emptied_def)
  from wait_time_on_raising_tick [OF lane_step4 h]
    wait_time_on_raising_tick [OF lane_onsite_step4 h']
    lane_step4 lane_onsite_step4 h h' f f'
  show ?thesis by simp
qed

end
